(* ===== verification/MCDC_Prelude.thy ===== *)
theory MCDC_Prelude
  imports Main "HOL-Library.Word"
begin

text \<open>
  Shared vocabulary of the MC/DC development.  The C program (\<open>src/mcdc.c\<close>,
  \<open>src/mcdc.h\<close>) works on heap buffers of \<open>_Bool\<close> addressed by \<open>unsigned int\<close>
  offsets.  This theory fixes how such code is read in HOL:
  \<^item> \<open>unsigned int\<close> (\<open>mcdc_table_size_t\<close>) is \<open>u32\<close>, a \<open>32 word\<close>: products and
    increments wrap modulo \<open>2^32\<close> exactly as in C;
  \<^item> a heap buffer is a list whose length is the number of allocated elements;
  \<^item> an access outside a buffer or through \<open>NULL\<close> is undefined behaviour of C,
    written as a value \<open>Inl\<close> of type \<open>c_ub\<close> (the program has no defined
    continuation there);
  \<^item> \<open>memcpy\<close>, \<open>memcmp\<close>, indexed load and store are \<open>buf_copy\<close>, \<open>buf_cmp\<close>,
    \<open>buf_load\<close>, \<open>buf_store\<close>, each defined only inside the buffer;
  \<^item> \<open>sbind\<close> threads such results, as the sequence of C statements does.
  The lemmas are the facts every component proof needs about these primitives,
  collected in \<open>buf_simps\<close>.
\<close>

named_theorems buf_simps "facts about the C buffer primitives"

type_synonym u32 = "32 word"

datatype c_ub = Null_deref | Read_oob | Write_oob

type_synonym 'a c_result = "c_ub + 'a"

definition sbind :: "'e + 'a \<Rightarrow> ('a \<Rightarrow> 'e + 'b) \<Rightarrow> 'e + 'b" where
  "sbind m f = (case m of Inl e \<Rightarrow> Inl e | Inr a \<Rightarrow> f a)"

definition buf_load :: "'a list \<Rightarrow> nat \<Rightarrow> 'a c_result" where
  "buf_load xs i = (if i < length xs then Inr (xs ! i) else Inl Read_oob)"

definition buf_store :: "'a list \<Rightarrow> nat \<Rightarrow> 'a \<Rightarrow> 'a list c_result" where
  "buf_store xs i v = (if i < length xs then Inr (xs[i := v]) else Inl Write_oob)"

text \<open>\<open>memcpy(&dst[off], src, n)\<close>: reads \<open>n\<close> elements of \<open>src\<close>, writes them at \<open>off\<close>.\<close>

definition buf_copy :: "'a list \<Rightarrow> nat \<Rightarrow> 'a list \<Rightarrow> nat \<Rightarrow> 'a list c_result" where
  "buf_copy dst off src n =
     (if length src < n then Inl Read_oob
      else if length dst < off + n then Inl Write_oob
      else Inr (take off dst @ take n src @ drop (off + n) dst))"

text \<open>\<open>memcmp(&a[off], b, n) == 0\<close>: both ranges must lie inside their buffers.\<close>

definition buf_cmp :: "'a list \<Rightarrow> nat \<Rightarrow> 'a list \<Rightarrow> nat \<Rightarrow> bool c_result" where
  "buf_cmp a off b n =
     (if length a < off + n \<or> length b < n then Inl Read_oob
      else Inr (take n (drop off a) = take n b))"

text \<open>The \<open>n\<close> elements starting at \<open>off\<close>: a row of a row-major matrix.\<close>

definition buf_slice :: "'a list \<Rightarrow> nat \<Rightarrow> nat \<Rightarrow> 'a list" where
  "buf_slice xs off n = take n (drop off xs)"

subsection \<open>Threading results\<close>

lemma sbind_Inl [simp]: "sbind (Inl e) f = Inl e"
  by (simp add: sbind_def)

lemma sbind_Inr [simp]: "sbind (Inr a) f = f a"
  by (simp add: sbind_def)

lemma sbind_eq_Inr: "sbind m f = Inr b \<longleftrightarrow> (\<exists>a. m = Inr a \<and> f a = Inr b)"
  by (cases m) (auto simp: sbind_def)

subsection \<open>The buffer primitives\<close>

lemma buf_load_Inr [buf_simps]: "buf_load xs i = Inr v \<longleftrightarrow> i < length xs \<and> v = xs ! i"
  by (auto simp: buf_load_def)

lemma buf_store_Inr [buf_simps]:
  "buf_store xs i v = Inr ys \<longleftrightarrow> i < length xs \<and> ys = xs[i := v]"
  by (auto simp: buf_store_def)

lemma buf_copy_Inr [buf_simps]:
  "buf_copy dst off src n = Inr ys \<longleftrightarrow>
     n \<le> length src \<and> off + n \<le> length dst \<and>
     ys = take off dst @ take n src @ drop (off + n) dst"
  by (auto simp: buf_copy_def)

lemma buf_copy_defined [buf_simps]:
  "(\<exists>ys. buf_copy dst off src n = Inr ys) \<longleftrightarrow> n \<le> length src \<and> off + n \<le> length dst"
  by (auto simp: buf_copy_def)

lemma buf_cmp_Inr [buf_simps]:
  "buf_cmp a off b n = Inr r \<longleftrightarrow>
     off + n \<le> length a \<and> n \<le> length b \<and> r = (buf_slice a off n = take n b)"
  by (auto simp: buf_cmp_def buf_slice_def)

lemma length_buf_copy [buf_simps]:
  "buf_copy dst off src n = Inr ys \<Longrightarrow> length ys = length dst"
  by (auto simp: buf_copy_Inr)

lemma buf_slice_copy_same [buf_simps]:
  "buf_copy dst off src n = Inr ys \<Longrightarrow> buf_slice ys off n = take n src"
  by (auto simp: buf_copy_Inr buf_slice_def)

text \<open>A copy leaves every slice that does not overlap the written range alone.\<close>

lemma buf_slice_copy_other [buf_simps]:
  assumes "buf_copy dst off src n = Inr ys"
    and "off' + m \<le> off \<or> off + n \<le> off'"
  shows "buf_slice ys off' m = buf_slice dst off' m"
proof -
  from assms(1) have n: "n \<le> length src" and len: "off + n \<le> length dst"
    and ys: "ys = take off dst @ take n src @ drop (off + n) dst"
    by (auto simp: buf_copy_Inr)
  show ?thesis
    using assms(2)
  proof
    assume "off' + m \<le> off"
    with len ys show ?thesis
      by (simp add: buf_slice_def take_drop min_def)
  next
    assume "off + n \<le> off'"
    with len n ys show ?thesis
      by (simp add: buf_slice_def min_def)
  qed
qed

subsection \<open>Row-major matrices\<close>

text \<open>Row \<open>i\<close> of a matrix with \<open>c\<close> columns stored row by row in \<open>xs\<close>.\<close>

lemma rows_disjoint [buf_simps]:
  "i \<noteq> (j::nat) \<Longrightarrow> i * c + c \<le> j * c \<or> j * c + c \<le> i * c"
proof (cases "i < j")
  case True
  then have "Suc i * c \<le> j * c" using mult_le_mono1 [of "Suc i" j c] by simp
  then show ?thesis by simp
next
  case False
  moreover assume "i \<noteq> j"
  ultimately have "Suc j * c \<le> i * c" using mult_le_mono1 [of "Suc j" i c] by simp
  then show ?thesis by simp
qed

lemma row_offset_bound [buf_simps]:
  "i < (r::nat) \<Longrightarrow> i * c + c \<le> r * c"
proof -
  assume "i < r"
  then have "Suc i * c \<le> r * c" using mult_le_mono1 [of "Suc i" r c] by simp
  then show ?thesis by simp
qed

text \<open>Bounded quantifiers over a numeral range unfold one index at a time.\<close>

lemma all_less_numeral_iff:
  "(\<forall>i < numeral n. P i) \<longleftrightarrow> P (pred_numeral n) \<and> (\<forall>i < pred_numeral n. P i)"
  by (simp add: numeral_eq_Suc All_less_Suc)

subsection \<open>Words\<close>

lemma unat_u32_bound: "unat (x::u32) < 2 ^ 32"
  using unsigned_less [of x] by simp

lemma unat_mult_no_wrap [buf_simps]:
  "unat (a::u32) * unat b < 2 ^ 32 \<Longrightarrow> unat (a * b) = unat a * unat b"
  by (simp add: unat_mult_lem [THEN iffD1])

lemma unat_row_offset [buf_simps]:
  assumes "unat (r::u32) * unat c < 2 ^ 32" and "i < r"
  shows "unat (i * c) = unat i * unat c"
proof -
  from assms(2) have "unat i < unat r" by (simp add: word_less_nat_alt)
  then have "unat i * unat c \<le> unat r * unat c" by (simp add: mult_le_mono1)
  with assms(1) have "unat i * unat c < 2 ^ 32" by linarith
  then show ?thesis by (rule unat_mult_no_wrap)
qed

lemma unat_one_plus [buf_simps]: "(x::u32) \<noteq> - 1 \<Longrightarrow> unat (1 + x) = Suc (unat x)"
  using unatSuc [of x] by (auto simp: add_eq_0_iff)

lemma unat_plus_one [buf_simps]: "(x::u32) \<noteq> - 1 \<Longrightarrow> unat (x + 1) = Suc (unat x)"
  using unat_one_plus [of x] by (simp add: add.commute)

lemma unat_Suc_less [buf_simps]: "(i::u32) < n \<Longrightarrow> unat (i + 1) = Suc (unat i)"
  by unat_arith


lemma of_nat_ne_minus_one [buf_simps]: "Suc n < 2 ^ 32 \<Longrightarrow> (of_nat n :: u32) \<noteq> - 1"
proof
  assume a: "Suc n < 2 ^ 32" and "(of_nat n :: u32) = - 1"
  then have z: "(of_nat (Suc n) :: u32) = 0" by simp
  have "unat (of_nat (Suc n) :: u32) = Suc n" using a by (simp only: unat_of_nat) simp
  with z show False by simp
qed


text \<open>A byte read as \<open>signed char\<close>: values from 128 on are negative.\<close>

lemma sint_byte:
  assumes n: "(n::nat) < 256"
  shows "sint (of_nat n :: 8 word) = (if n < 128 then int n else int n - 256)"
proof -
  have u: "uint (of_nat n :: 8 word) = int n" using n by (simp add: unsigned_of_nat take_bit_nat_eq_self)
  have s: "sint (of_nat n :: 8 word) = (int n + 128) mod 256 - 128"
    by (simp add: sint_uint u signed_take_bit_eq_take_bit_shift take_bit_eq_mod)
  show ?thesis
  proof (cases "n < 128")
    case True
    with s show ?thesis by simp
  next
    case False
    then obtain m where m: "n = m + 128" by (metis add.commute le_Suc_ex not_less)
    with n have "(int n + 128) mod 256 = int m" by simp
    with s m show ?thesis by simp
  qed
qed

end
