(* ===== verification/MCDC_Table.thy ===== *)
theory MCDC_Table
  imports MCDC_Prelude
begin

text \<open>
  The coverage table of one decision (\<open>mcdc_table_t\<close>, \<open>src/mcdc.h\<close>).  The
  expected matrix \<open>table\<close> is one heap buffer of \<open>_Bool\<close> holding \<open>rows\<close> rows of
  \<open>cols\<close> conditions, row by row; \<open>checks\<close> is the buffer of observed flags.  Both
  are modelled by their contents, and their lengths are the sizes the allocator
  gave them, which need not be \<open>rows * cols\<close> in \<open>nat\<close>: the C code computes that
  size in \<open>unsigned int\<close>.  This theory gives the record, the row view of the
  flat buffer (\<open>expected_row\<close>, \<open>expected_rows\<close>), the shape invariant that every
  table built by \<open>mcdc_alloc_table\<close> has (\<open>table_wf\<close>) and the condition under
  which the allocation size did not wrap (\<open>dims_fit\<close>).
\<close>

text \<open>The typedefs of \<open>src/mcdc.h\<close>: a condition is a \<open>_Bool\<close>, a row and a
  matrix are heap buffers of \<open>_Bool\<close>, sizes are \<open>unsigned int\<close>.\<close>

type_synonym mcdc_cond_t = bool
type_synonym mcdc_row_t = "mcdc_cond_t list"
type_synonym mcdc_table_handle_t = "mcdc_cond_t list"
type_synonym mcdc_table_size_t = u32

record mcdc_table_t =
  name :: string
  table :: mcdc_table_handle_t
  checks :: mcdc_row_t
  rows :: mcdc_table_size_t
  cols :: mcdc_table_size_t

text \<open>The content of a list slot that \<open>calloc\<close> or \<open>realloc\<close> gave but no table
  was stored into yet (\<open>mcdc_alloc_table\<close> overwrites all five fields).\<close>

definition fresh_slot :: mcdc_table_t where
  "fresh_slot = \<lparr>name = [], table = [], checks = [], rows = 0, cols = 0\<rparr>"

definition table_wf :: "mcdc_table_t \<Rightarrow> bool" where
  "table_wf t \<longleftrightarrow>
     length (table t) = unat (rows t * cols t) \<and> length (checks t) = unat (rows t)"

definition dims_fit :: "mcdc_table_t \<Rightarrow> bool" where
  "dims_fit t \<longleftrightarrow> unat (rows t) * unat (cols t) < 2 ^ 32"

definition expected_row :: "mcdc_table_t \<Rightarrow> nat \<Rightarrow> bool list" where
  "expected_row t i = buf_slice (table t) (i * unat (cols t)) (unat (cols t))"

definition expected_rows :: "mcdc_table_t \<Rightarrow> bool list list" where
  "expected_rows t = map (expected_row t) [0..<unat (rows t)]"

lemma table_wf_length:
  "table_wf t \<Longrightarrow> dims_fit t \<Longrightarrow> length (table t) = unat (rows t) * unat (cols t)"
  by (simp add: table_wf_def dims_fit_def unat_mult_no_wrap)

lemma length_expected_row:
  assumes "table_wf t" and "dims_fit t" and "i < unat (rows t)"
  shows "length (expected_row t i) = unat (cols t)"
proof -
  from assms(3) have "i * unat (cols t) + unat (cols t) \<le> unat (rows t) * unat (cols t)"
    by (rule row_offset_bound)
  with table_wf_length [OF assms(1,2)] show ?thesis
    by (simp add: expected_row_def buf_slice_def)
qed

lemma length_expected_rows [simp]: "length (expected_rows t) = unat (rows t)"
  by (simp add: expected_rows_def)

lemma nth_expected_rows [simp]:
  "i < unat (rows t) \<Longrightarrow> expected_rows t ! i = expected_row t i"
  by (simp add: expected_rows_def)

end
