(* ===== verification/MCDC_Context.thy ===== *)
theory MCDC_Context
  imports MCDC_Table
begin

text \<open>
  The process-wide registry of coverage tables and the allocation of a new table
  (\<open>src/mcdc.c\<close>: the globals \<open>m_nrows\<close>, \<open>m_mcdc_context\<close>, \<open>m_rows\<close>, \<open>m_cols\<close>,
  the wrapper \<open>try\<close>, \<open>try_mcdc_alloc_table\<close>, \<open>try_mcdc_alloc_checks\<close> and
  \<open>mcdc_alloc_table\<close>).

  The globals form the record \<open>mcdc_state\<close>.  The context's \<open>list\<close> pointer is
  \<open>ctx_list\<close>: \<open>None\<close> for \<open>NULL\<close>, \<open>Some xs\<close> for a heap block of \<open>length xs\<close>
  slots.  \<open>heap_blocks\<close> counts the live heap blocks (\<open>calloc\<close> adds one,
  \<open>realloc\<close> replaces one, nothing is freed), as the allocation limit of a
  heap.  Two fields are observations rather than C variables: \<open>stderr_log\<close>
  collects the lines \<open>try\<close> prints, and \<open>faults\<close> records out-of-bounds writes
  the code performs into memory no modelled object occupies (the \<open>memset\<close> of the
  regrow step), so that they are visible instead of silently dropped.

  Allocation can fail.  Which of the three allocations of one call succeed is
  the environment's choice, given as an \<open>alloc_outcome\<close>; \<open>calloc\<close> and
  \<open>realloc\<close> return \<open>None\<close> for \<open>NULL\<close>.  \<open>errno\<close> is a field of the state: a
  failed \<open>calloc\<close> sets it to \<open>ENOMEM\<close> (POSIX), a successful one leaves it
  alone, and \<open>try\<close> saves it, clears it, tests it and restores it as the code
  does.  The \<open>calloc\<close>/\<open>realloc\<close> of the table list change \<open>errno\<close> only when
  they fail, and then the code goes on to dereference \<open>NULL\<close>, where the model
  stops.
\<close>

record mcdc_context_t =
  ctx_list :: "mcdc_table_t list option"
  ctx_len :: u32

record mcdc_state =
  m_mcdc_context :: mcdc_context_t
  m_nrows :: u32
  m_rows :: u32
  m_cols :: u32
  stderr_log :: "string list"
  faults :: "c_ub list"
  errno :: int
  heap_blocks :: nat

definition mcdc_init :: mcdc_state where
  "mcdc_init =
     \<lparr>m_mcdc_context = \<lparr>ctx_list = None, ctx_len = 0\<rparr>, m_nrows = 0, m_rows = 0,
      m_cols = 0, stderr_log = [], faults = [], errno = 0,
      heap_blocks = 0\<rparr>"

record alloc_outcome =
  checks_ok :: bool
  table_ok :: bool
  list_ok :: bool

definition all_ok :: alloc_outcome where
  "all_ok = \<lparr>checks_ok = True, table_ok = True, list_ok = True\<rparr>"

subsection \<open>The allocator\<close>

definition calloc :: "bool \<Rightarrow> nat \<Rightarrow> 'a \<Rightarrow> 'a list option" where
  "calloc ok n z = (if ok then Some (replicate n z) else None)"

text \<open>The \<open>errno\<close> after a \<open>calloc\<close> that started with \<open>errno = e\<close>.\<close>

definition ENOMEM :: int where
  "ENOMEM = 12"

text \<open>The effect of a \<open>calloc\<close> on the globals: a new live heap block when it
  succeeds, \<open>errno = ENOMEM\<close> when it fails.\<close>

definition calloc_effect :: "bool \<Rightarrow> mcdc_state \<Rightarrow> mcdc_state" where
  "calloc_effect ok st =
     (if ok then st\<lparr>heap_blocks := Suc (heap_blocks st)\<rparr> else st\<lparr>errno := ENOMEM\<rparr>)"

text \<open>\<open>realloc\<close> keeps the first \<open>n\<close> slots; new slots are modelled as
  \<open>fresh_slot\<close> (their contents are never read before being overwritten).\<close>

definition realloc :: "bool \<Rightarrow> mcdc_table_t list \<Rightarrow> nat \<Rightarrow> mcdc_table_t list option" where
  "realloc ok xs n = (if ok then Some (take n xs @ replicate (n - length xs) fresh_slot) else None)"

subsection \<open>The allocation steps\<close>

text \<open>\<open>try(func, msg)\<close>: save \<open>errno\<close>, clear it, run \<open>func\<close>, print \<open>msg\<close> to
  \<open>stderr\<close> if \<open>errno\<close> is now set, restore the saved \<open>errno\<close>.\<close>

definition try_call ::
  "(mcdc_state \<Rightarrow> 'a option \<times> mcdc_state) \<Rightarrow> string \<Rightarrow> mcdc_state \<Rightarrow> 'a option \<times> mcdc_state" where
  "try_call func msg st =
     (let saved_err = errno st;
          (r, st1) = func (st\<lparr>errno := 0\<rparr>);
          st2 = (if errno st1 \<noteq> 0 then st1\<lparr>stderr_log := stderr_log st1 @ [''[ERROR] '' @ msg]\<rparr>
                 else st1)
      in (r, st2\<lparr>errno := saved_err\<rparr>))"

text \<open>\<open>m_ret_malloc\<close> is returned as the first component.  The size
  \<open>m_rows * m_cols\<close> is an \<open>unsigned int\<close> product, computed before the
  conversion to \<open>size_t\<close>.\<close>

definition try_mcdc_alloc_table :: "bool \<Rightarrow> mcdc_state \<Rightarrow> bool list option \<times> mcdc_state" where
  "try_mcdc_alloc_table ok st =
     (calloc ok (unat (m_rows st * m_cols st)) False,
      (calloc_effect ok st)\<lparr>m_nrows := 0\<rparr>)"

definition try_mcdc_alloc_checks :: "bool \<Rightarrow> mcdc_state \<Rightarrow> bool list option \<times> mcdc_state" where
  "try_mcdc_alloc_checks ok st =
     (calloc ok (unat (m_rows st)) False, calloc_effect ok st)"

text \<open>Growing the list by one slot.  The first table gets a \<open>calloc\<close>'d slot; later
  ones \<open>realloc\<close> to \<open>1 + len\<close> slots (an \<open>unsigned int\<close> sum) and then \<open>memset\<close>
  slot \<open>len + 1\<close>.  A failed \<open>realloc\<close> leaves \<open>list = NULL\<close>, which the \<open>memset\<close>
  dereferences.  The result is the new \<open>list\<close> pointer, the number of heap
  blocks added (one for the first \<open>calloc\<close>; a \<open>realloc\<close> replaces its block)
  and the faults logged.\<close>

definition regrow_context ::
  "bool \<Rightarrow> mcdc_context_t \<Rightarrow> (mcdc_table_t list option \<times> nat \<times> c_ub list) c_result" where
  "regrow_context ok ctx =
     (case ctx_list ctx of
        None \<Rightarrow> Inr (calloc ok 1 fresh_slot, if ok then 1 else 0, [])
      | Some xs \<Rightarrow>
          (case realloc ok xs (unat (1 + ctx_len ctx)) of
             None \<Rightarrow> Inl Null_deref
           | Some ys \<Rightarrow>
               Inr (Some ys, 0, if unat (ctx_len ctx + 1) < length ys then [] else [Write_oob])))"

text \<open>\<open>m_mcdc_context.list[len].field = ...\<close> for the five fields.\<close>

definition store_table ::
  "mcdc_table_t list option \<Rightarrow> u32 \<Rightarrow> mcdc_table_t \<Rightarrow> mcdc_table_t list c_result" where
  "store_table lst i t = (case lst of None \<Rightarrow> Inl Null_deref | Some xs \<Rightarrow> buf_store xs (unat i) t)"

definition mcdc_alloc_table ::
  "alloc_outcome \<Rightarrow> u32 \<Rightarrow> u32 \<Rightarrow> string \<Rightarrow> mcdc_state \<Rightarrow> mcdc_state c_result" where
  "mcdc_alloc_table ok n_rows n_cols t_name st0 =
     (let st1 = st0\<lparr>m_rows := n_rows, m_cols := n_cols\<rparr>;
          (cs, st2) = try_call (try_mcdc_alloc_checks (checks_ok ok)) ''MC/DC checks allocation'' st1;
          (tb, st3) = try_call (try_mcdc_alloc_table (table_ok ok)) ''MC/DC table allocation'' st2;
          ctx = m_mcdc_context st3
      in case (cs, tb) of
           (Some c, Some t) \<Rightarrow>
             sbind (regrow_context (list_ok ok) ctx) (\<lambda>(lst, nb, fs).
             sbind (store_table lst (ctx_len ctx)
                      \<lparr>name = t_name, table = t, checks = c, rows = n_rows, cols = n_cols\<rparr>) (\<lambda>xs.
             Inr (st3\<lparr>m_mcdc_context := \<lparr>ctx_list = Some xs, ctx_len = ctx_len ctx + 1\<rparr>,
                      heap_blocks := heap_blocks st3 + nb, faults := faults st3 @ fs\<rparr>)))
         | _ \<Rightarrow> Inr st3)"

subsection \<open>Views of the state\<close>

text \<open>The tables stored so far, in allocation order, and the registry's shape
  invariant: the list is \<open>NULL\<close> exactly while no table was stored, \<open>len\<close>
  counts its slots, and every table has the buffers \<open>mcdc_alloc_table\<close> sized
  for it.\<close>

definition registry :: "mcdc_state \<Rightarrow> mcdc_table_t list" where
  "registry st = (case ctx_list (m_mcdc_context st) of None \<Rightarrow> [] | Some xs \<Rightarrow> xs)"

text \<open>The heap blocks the context references: the list and, per table, its
  matrix and its flags.  The code never calls \<open>free\<close>, so every other live
  block is leaked.\<close>

definition live_blocks :: "mcdc_state \<Rightarrow> nat" where
  "live_blocks st =
     (case ctx_list (m_mcdc_context st) of None \<Rightarrow> 0 | Some xs \<Rightarrow> Suc (2 * length xs))"

definition ctx_inv :: "mcdc_context_t \<Rightarrow> bool" where
  "ctx_inv ctx \<longleftrightarrow>
     (case ctx_list ctx of
        None \<Rightarrow> ctx_len ctx = 0
      | Some xs \<Rightarrow> xs \<noteq> [] \<and> unat (ctx_len ctx) = length xs \<and> list_all table_wf xs)"

text \<open>The table a successful allocation stores: zeroed buffers of the sizes
  \<open>calloc\<close> was asked for.\<close>

definition new_table :: "u32 \<Rightarrow> u32 \<Rightarrow> string \<Rightarrow> mcdc_table_t" where
  "new_table n_rows n_cols t_name =
     \<lparr>name = t_name, table = replicate (unat (n_rows * n_cols)) False,
      checks = replicate (unat n_rows) False, rows = n_rows, cols = n_cols\<rparr>"

definition alloc_errors :: "alloc_outcome \<Rightarrow> string list" where
  "alloc_errors ok =
     (if checks_ok ok then [] else [''[ERROR] MC/DC checks allocation'']) @
     (if table_ok ok then [] else [''[ERROR] MC/DC table allocation''])"

subsection \<open>The allocation steps, one by one\<close>

lemma try_checks_eq:
  "try_call (try_mcdc_alloc_checks ok) msg st =
     (calloc ok (unat (m_rows st)) False,
      if ok then st\<lparr>heap_blocks := Suc (heap_blocks st)\<rparr>
      else st\<lparr>stderr_log := stderr_log st @ [''[ERROR] '' @ msg]\<rparr>)"
  by (simp add: try_call_def try_mcdc_alloc_checks_def calloc_def calloc_effect_def ENOMEM_def)

lemma try_table_eq:
  "try_call (try_mcdc_alloc_table ok) msg st =
     (calloc ok (unat (m_rows st * m_cols st)) False,
      if ok then st\<lparr>heap_blocks := Suc (heap_blocks st), m_nrows := 0\<rparr>
      else st\<lparr>m_nrows := 0, stderr_log := stderr_log st @ [''[ERROR] '' @ msg]\<rparr>)"
  by (simp add: try_call_def try_mcdc_alloc_table_def calloc_def calloc_effect_def ENOMEM_def)

lemma regrow_context_Some:
  assumes "ctx_list ctx = Some xs" and "unat (ctx_len ctx) = length xs"
    and "ctx_len ctx \<noteq> - 1"
  shows "regrow_context True ctx = Inr (Some (xs @ [fresh_slot]), 0, [Write_oob])"
  using assms by (simp add: regrow_context_def realloc_def unat_one_plus unat_plus_one)

lemma regrow_context_fail:
  "ctx_list ctx \<noteq> None \<Longrightarrow> regrow_context False ctx = Inl Null_deref"
  by (auto simp: regrow_context_def realloc_def)

lemmas alloc_step_simps = mcdc_alloc_table_def try_checks_eq try_table_eq calloc_def
  store_table_def buf_store_def

subsection \<open>Allocation: result on every branch\<close>

lemma mcdc_alloc_table_ok:
  assumes "checks_ok ok" and "table_ok ok" and "list_ok ok"
    and "ctx_inv (m_mcdc_context st)" and "ctx_len (m_mcdc_context st) \<noteq> - 1"
  shows "mcdc_alloc_table ok n_rows n_cols t_name st =
     Inr (st\<lparr>m_mcdc_context := \<lparr>ctx_list = Some (registry st @ [new_table n_rows n_cols t_name]),
                               ctx_len = ctx_len (m_mcdc_context st) + 1\<rparr>,
             m_nrows := 0, m_rows := n_rows, m_cols := n_cols,
             heap_blocks := heap_blocks st + (if registry st = [] then 3 else 2),
             faults := faults st @ (if registry st = [] then [] else [Write_oob])\<rparr>)"
proof (cases "ctx_list (m_mcdc_context st)")
  case None
  with assms show ?thesis
    by (simp add: alloc_step_simps ctx_inv_def registry_def regrow_context_def new_table_def)
next
  case (Some xs)
  with assms(4) have xs: "xs \<noteq> []" "unat (ctx_len (m_mcdc_context st)) = length xs"
    by (auto simp: ctx_inv_def)
  with Some assms(1-3,5) show ?thesis
    by (simp add: alloc_step_simps registry_def regrow_context_Some new_table_def)
qed

text \<open>With \<open>2^32 - 1\<close> tables, \<open>1 + len\<close> wraps to 0: the list is reallocated to
  no slots and the store into slot \<open>len\<close> is out of bounds.\<close>

lemma mcdc_alloc_table_full:
  assumes "ctx_inv (m_mcdc_context st)" and "ctx_len (m_mcdc_context st) = - 1"
    and "checks_ok ok" and "table_ok ok" and "list_ok ok"
  shows "mcdc_alloc_table ok n_rows n_cols t_name st = Inl Write_oob"
proof -
  from assms(1,2) obtain xs where "ctx_list (m_mcdc_context st) = Some xs"
    by (auto simp: ctx_inv_def split: option.splits)
  with assms(2-5) show ?thesis
    by (simp add: alloc_step_simps regrow_context_def realloc_def)
qed

lemma mcdc_alloc_table_buffer_fail:
  assumes "\<not> checks_ok ok \<or> \<not> table_ok ok"
  shows "mcdc_alloc_table ok n_rows n_cols t_name st =
     Inr (st\<lparr>m_nrows := 0, m_rows := n_rows, m_cols := n_cols,
             heap_blocks := heap_blocks st + of_bool (checks_ok ok) + of_bool (table_ok ok),
             stderr_log := stderr_log st @ alloc_errors ok\<rparr>)"
  using assms by (auto simp: alloc_step_simps alloc_errors_def)

lemma mcdc_alloc_table_list_fail_not_Inr:
  assumes "checks_ok ok" and "table_ok ok" and "\<not> list_ok ok"
  shows "mcdc_alloc_table ok n_rows n_cols t_name st \<noteq> Inr st'"
  using assms
  by (cases "ctx_list (m_mcdc_context st)")
     (simp_all add: alloc_step_simps regrow_context_def realloc_def)

text \<open>Heap accounting: allocation never frees, and a successful one allocates
  exactly the blocks the context then references in addition.\<close>

lemma live_blocks_registry:
  "ctx_inv (m_mcdc_context st) \<Longrightarrow>
   live_blocks st = (if registry st = [] then 0 else Suc (2 * length (registry st)))"
  by (auto simp: live_blocks_def ctx_inv_def registry_def split: option.splits)

lemma mcdc_alloc_table_heap:
  assumes inv: "ctx_inv (m_mcdc_context st)" and le: "live_blocks st \<le> heap_blocks st"
    and ret: "mcdc_alloc_table ok n_rows n_cols t_name st = Inr st'"
  shows "live_blocks st' \<le> heap_blocks st'"
proof (cases "checks_ok ok \<and> table_ok ok")
  case True
  have lok: "list_ok ok" using True ret mcdc_alloc_table_list_fail_not_Inr by blast
  have "ctx_len (m_mcdc_context st) \<noteq> - 1"
  proof
    assume "ctx_len (m_mcdc_context st) = - 1"
    with True lok have "mcdc_alloc_table ok n_rows n_cols t_name st = Inl Write_oob"
      using mcdc_alloc_table_full [OF inv] by simp
    with ret show False by simp
  qed
  with lok have "st' = st\<lparr>m_mcdc_context := \<lparr>ctx_list = Some (registry st @ [new_table n_rows n_cols t_name]),
                               ctx_len = ctx_len (m_mcdc_context st) + 1\<rparr>,
             m_nrows := 0, m_rows := n_rows, m_cols := n_cols,
             heap_blocks := heap_blocks st + (if registry st = [] then 3 else 2),
             faults := faults st @ (if registry st = [] then [] else [Write_oob])\<rparr>"
    using mcdc_alloc_table_ok [OF _ _ _ inv, of ok n_rows n_cols t_name] True ret by simp
  then show ?thesis using le live_blocks_registry [OF inv] by (simp add: live_blocks_def split: if_splits)
next
  case False
  then show ?thesis using ret le mcdc_alloc_table_buffer_fail [of ok n_rows n_cols t_name st]
    by (auto simp: live_blocks_def)
qed

lemma mcdc_alloc_table_faults:
  "mcdc_alloc_table ok n_rows n_cols t_name st = Inr st' \<Longrightarrow>
   faults st' = faults st \<or> faults st' = faults st @ [Write_oob]"
  by (auto simp: alloc_step_simps Let_def regrow_context_def sbind_eq_Inr
      split: option.splits prod.splits if_splits)

subsection \<open>The registry invariant\<close>

lemma table_wf_new_table: "table_wf (new_table n_rows n_cols t_name)"
  by (simp add: table_wf_def new_table_def)

lemma mcdc_alloc_table_inv:
  assumes inv: "ctx_inv (m_mcdc_context st)"
    and ret: "mcdc_alloc_table ok n_rows n_cols t_name st = Inr st'"
  shows "ctx_inv (m_mcdc_context st')"
proof (cases "checks_ok ok \<and> table_ok ok")
  case False
  with ret inv show ?thesis by (auto simp: mcdc_alloc_table_buffer_fail)
next
  case True
  show ?thesis
  proof (cases "list_ok ok")
    case False
    with True ret show ?thesis by (simp add: mcdc_alloc_table_list_fail_not_Inr)
  next
    case lst: True
    show ?thesis
    proof (cases "ctx_len (m_mcdc_context st) = - 1")
      case True
      with inv \<open>checks_ok ok \<and> table_ok ok\<close> lst ret show ?thesis
        by (simp add: mcdc_alloc_table_full)
    next
      case False
      from inv have len: "unat (ctx_len (m_mcdc_context st)) = length (registry st)"
        and wf: "list_all table_wf (registry st)"
        by (auto simp: ctx_inv_def registry_def split: option.splits)
      with False have "unat (ctx_len (m_mcdc_context st) + 1) = Suc (length (registry st))"
        by (simp add: unat_plus_one)
      with wf \<open>checks_ok ok \<and> table_ok ok\<close> lst inv False ret show ?thesis
        by (auto simp: mcdc_alloc_table_ok ctx_inv_def table_wf_new_table)
    qed
  qed
qed

subsection \<open>Properties of allocation\<close>

text \<open>C10 (allocation, spec 4.1): when all three allocations succeed, the call
  appends one table with the given name and dimensions, an all-false matrix of
  the size \<open>calloc\<close> was asked for and all-false observed flags; it resets the
  registration cursor, counts the table in \<open>len\<close> and keeps the registry
  well-formed.\<close>

theorem alloc_table_appends_fresh_table:
  assumes "checks_ok ok" and "table_ok ok" and "list_ok ok"
    and inv: "ctx_inv (m_mcdc_context st)" and "ctx_len (m_mcdc_context st) \<noteq> - 1"
  shows "\<exists>st'. mcdc_alloc_table ok n_rows n_cols t_name st = Inr st' \<and>
           registry st' = registry st @ [new_table n_rows n_cols t_name] \<and>
           m_nrows st' = 0 \<and> ctx_len (m_mcdc_context st') = ctx_len (m_mcdc_context st) + 1 \<and>
           ctx_inv (m_mcdc_context st')"
proof -
  note ret = mcdc_alloc_table_ok [OF assms, of n_rows n_cols t_name]
  with inv have "ctx_inv (m_mcdc_context (st\<lparr>m_mcdc_context :=
      \<lparr>ctx_list = Some (registry st @ [new_table n_rows n_cols t_name]),
       ctx_len = ctx_len (m_mcdc_context st) + 1\<rparr>,
      m_nrows := 0, m_rows := n_rows, m_cols := n_cols,
      heap_blocks := heap_blocks st + (if registry st = [] then 3 else 2),
      faults := faults st @ (if registry st = [] then [] else [Write_oob])\<rparr>))"
    by (rule mcdc_alloc_table_inv)
  with ret show ?thesis by (simp add: registry_def)
qed

text \<open>C11 (allocation failure, spec 4.1 and 7): if the observed-flags or the
  matrix allocation fails, no table is added and the failure is reported only
  on stderr; but the registration cursor is reset to 0 all the same, because
  \<open>try_mcdc_alloc_table\<close> clears it whether or not its \<open>calloc\<close> succeeds
  (the spec asks that the context be left unchanged).  The buffer whose
  \<open>calloc\<close> did succeed stays allocated while the blocks the context references
  do not change: it is leaked, since nothing frees it.\<close>

theorem alloc_failure_keeps_tables_resets_cursor:
  assumes "\<not> checks_ok ok \<or> \<not> table_ok ok"
  shows "\<exists>st'. mcdc_alloc_table ok n_rows n_cols t_name st = Inr st' \<and>
           m_mcdc_context st' = m_mcdc_context st \<and> faults st' = faults st \<and>
           m_nrows st' = 0 \<and> stderr_log st' = stderr_log st @ alloc_errors ok \<and>
           heap_blocks st' = heap_blocks st + of_bool (checks_ok ok) + of_bool (table_ok ok) \<and>
           live_blocks st' = live_blocks st"
  using mcdc_alloc_table_buffer_fail [OF assms] by (simp add: live_blocks_def)

text \<open>C12 (failure to grow the list, spec 4.1 and 7): if both buffers were
  allocated but growing the table list fails (\<open>calloc\<close> for the first table,
  \<open>realloc\<close> afterwards), the code dereferences the \<open>NULL\<close> list: undefined
  behaviour instead of the all-or-nothing failure the spec requires.\<close>

theorem alloc_list_failure_is_ub:
  assumes "checks_ok ok" and "table_ok ok" and "\<not> list_ok ok"
  shows "mcdc_alloc_table ok n_rows n_cols t_name st = Inl Null_deref"
  using assms
  by (cases "ctx_list (m_mcdc_context st)")
     (simp_all add: alloc_step_simps regrow_context_def realloc_def)

text \<open>C13 (the regrow \<open>memset\<close>): every successful allocation after the first
  one writes past the end of the freshly reallocated list: the list has
  \<open>len + 1\<close> slots and \<open>memset\<close> clears part of slot \<open>len + 1\<close>.\<close>

theorem alloc_after_first_writes_past_list:
  assumes "checks_ok ok" and "table_ok ok" and "list_ok ok"
    and "ctx_inv (m_mcdc_context st)" and "ctx_len (m_mcdc_context st) \<noteq> - 1"
    and "registry st \<noteq> []"
  shows "\<exists>st'. mcdc_alloc_table ok n_rows n_cols t_name st = Inr st' \<and>
           faults st' = faults st @ [Write_oob]"
  using mcdc_alloc_table_ok [OF assms(1-5), of n_rows n_cols t_name] assms(6) by simp

text \<open>C27 (\<open>try\<close> keeps the caller's \<open>errno\<close>, spec 7): whenever
  \<open>mcdc_alloc_table\<close> returns, \<open>errno\<close> is what it was before the call, and the
  lines written to \<open>stderr\<close> are exactly the messages of the failed buffer
  allocations, in order, whatever \<open>errno\<close> held on entry (\<open>try\<close> clears it
  before each allocation).\<close>

theorem alloc_table_keeps_errno:
  assumes "mcdc_alloc_table ok n_rows n_cols t_name st = Inr st'"
  shows "errno st' = errno st \<and> stderr_log st' = stderr_log st @ alloc_errors ok"
  using assms
  by (auto simp: alloc_step_simps alloc_errors_def Let_def sbind_eq_Inr split: option.splits prod.splits if_splits)

end
