(* ===== verification/MCDC_Matcher.thy ===== *)
theory MCDC_Matcher
  imports MCDC_Context
begin

text \<open>
  The row matcher (\<open>src/mcdc.c\<close>: \<open>mcdc_register_row\<close>, \<open>mcdc_check_row\<close>).
  Registration copies \<open>cols\<close> conditions into the most recently allocated table
  at row \<open>m_nrows\<close> and advances the cursor; checking scans the rows of table
  \<open>at_table\<close> with \<open>memcmp\<close> and sets the observed flag of the first equal row.
  Offsets are the C's \<open>unsigned int\<close> products \<open>m_nrows * cols\<close> and
  \<open>i * cols\<close>; no bound is checked, so a registration past the last row or an
  index past the last table is undefined behaviour (an \<open>Inl\<close> result).

  Reference definitions state what the operations mean on the row view of
  \<open>MCDC_Table\<close>: \<open>first_match\<close> and \<open>mark_first\<close> (the first-match rule),
  \<open>check_table\<close> and \<open>register_table\<close> (one check or registration on one
  table).  The lemmas prove the C loop equal to \<open>mark_first\<close> on every
  well-formed table whose size did not wrap, describe both operations on every
  branch (success, over-registration, missing table, bad index) and give the
  row-level effect of a registration.
\<close>

definition mcdc_register_row :: "bool list \<Rightarrow> mcdc_state \<Rightarrow> mcdc_state c_result" where
  "mcdc_register_row conds st =
     (let ctx = m_mcdc_context st in
      case ctx_list ctx of
        None \<Rightarrow> Inl Null_deref
      | Some xs \<Rightarrow>
          sbind (buf_load xs (unat (ctx_len ctx - 1))) (\<lambda>this.
          sbind (buf_copy (table this) (unat (m_nrows st * cols this)) conds (unat (cols this))) (\<lambda>tb.
          Inr (st\<lparr>m_mcdc_context :=
                    ctx\<lparr>ctx_list := Some (xs[unat (ctx_len ctx - 1) := this\<lparr>table := tb\<rparr>])\<rparr>,
                  m_nrows := m_nrows st + 1\<rparr>))))"

function mcdc_check_loop :: "mcdc_table_t \<Rightarrow> bool list \<Rightarrow> u32 \<Rightarrow> bool list c_result" where
  "mcdc_check_loop this row i =
     (if i < rows this then
        sbind (buf_cmp (table this) (unat (i * cols this)) row (unat (cols this))) (\<lambda>eq.
          if eq then buf_store (checks this) (unat i) True
          else mcdc_check_loop this row (i + 1))
      else Inr (checks this))"
  by pat_completeness auto
termination
  by (relation "measure (\<lambda>(this, row, i). unat (rows this) - unat i)")
     (auto simp: unat_Suc_less word_less_nat_alt)

definition mcdc_check_row :: "u32 \<Rightarrow> bool list \<Rightarrow> mcdc_state \<Rightarrow> mcdc_state c_result" where
  "mcdc_check_row at_table row st =
     (let ctx = m_mcdc_context st in
      case ctx_list ctx of
        None \<Rightarrow> Inl Null_deref
      | Some xs \<Rightarrow>
          sbind (buf_load xs (unat at_table)) (\<lambda>this.
          sbind (mcdc_check_loop this row 0) (\<lambda>cs.
          Inr (st\<lparr>m_mcdc_context :=
                    ctx\<lparr>ctx_list := Some (xs[unat at_table := this\<lparr>checks := cs\<rparr>])\<rparr>\<rparr>))))"

fun first_match :: "'a list \<Rightarrow> 'a \<Rightarrow> nat option" where
  "first_match [] v = None"
| "first_match (r # rs) v = (if r = v then Some 0 else map_option Suc (first_match rs v))"

definition mark_first :: "bool list list \<Rightarrow> bool list \<Rightarrow> bool list \<Rightarrow> bool list" where
  "mark_first rs v cs = (case first_match rs v of None \<Rightarrow> cs | Some i \<Rightarrow> cs[i := True])"

definition check_table :: "mcdc_table_t \<Rightarrow> bool list \<Rightarrow> mcdc_table_t" where
  "check_table t row =
     t\<lparr>checks := mark_first (expected_rows t) (take (unat (cols t)) row) (checks t)\<rparr>"

definition register_table :: "mcdc_table_t \<Rightarrow> nat \<Rightarrow> bool list \<Rightarrow> mcdc_table_t" where
  "register_table t k v =
     (let c = unat (cols t)
      in t\<lparr>table := take (k * c) (table t) @ take c v @ drop (k * c + c) (table t)\<rparr>)"

definition set_registry :: "mcdc_state \<Rightarrow> mcdc_table_t list \<Rightarrow> mcdc_state" where
  "set_registry st xs = st\<lparr>m_mcdc_context := (m_mcdc_context st)\<lparr>ctx_list := Some xs\<rparr>\<rparr>"

declare mcdc_check_loop.simps [simp del]

lemma drop_expected_rows:
  "k < unat (rows t) \<Longrightarrow> drop k (expected_rows t) = expected_row t k # drop (Suc k) (expected_rows t)"
  using Cons_nth_drop_Suc [of k "expected_rows t"] by simp

lemma mcdc_check_loop_from:
  assumes "table_wf t" and "dims_fit t" and "unat (cols t) \<le> length row"
  shows "mcdc_check_loop t row i =
     Inr (case first_match (drop (unat i) (expected_rows t)) (take (unat (cols t)) row) of
            None \<Rightarrow> checks t
          | Some k \<Rightarrow> (checks t)[unat i + k := True])"
  using assms
proof (induction t row i rule: mcdc_check_loop.induct)
  case (1 t row i)
  note wf = "1.prems"(1) and fit = "1.prems"(2) and long = "1.prems"(3)
  show ?case
  proof (cases "i < rows t")
    case True
    then have lt: "unat i < unat (rows t)" by (simp add: word_less_nat_alt)
    have off: "unat (i * cols t) = unat i * unat (cols t)"
      using fit True unfolding dims_fit_def by (rule unat_row_offset)
    have rng: "unat i * unat (cols t) + unat (cols t) \<le> length (table t)"
      using lt table_wf_length [OF wf fit] by (simp add: row_offset_bound)
    have cmp: "buf_cmp (table t) (unat (i * cols t)) row (unat (cols t)) =
               Inr (expected_row t (unat i) = take (unat (cols t)) row)"
      using off rng long by (simp add: buf_cmp_Inr expected_row_def)
    show ?thesis
    proof (cases "expected_row t (unat i) = take (unat (cols t)) row")
      case eq: True
      have "unat i < length (checks t)" using wf lt by (simp add: table_wf_def)
      with True cmp eq lt show ?thesis
        by (simp add: mcdc_check_loop.simps [of t row i] drop_expected_rows buf_store_def)
    next
      case ne: False
      have "unat (i + 1) = Suc (unat i)" using True by (rule unat_Suc_less)
      with "1.IH" [OF True ne wf fit long] True cmp ne lt show ?thesis
        by (simp add: mcdc_check_loop.simps [of t row i] drop_expected_rows option.case_eq_if
            option.map_sel)
    qed
  next
    case False
    then have "unat (rows t) \<le> unat i" by (simp add: word_less_nat_alt not_less)
    with False show ?thesis
      by (simp add: mcdc_check_loop.simps [of t row i] expected_rows_def)
  qed
qed

lemma mcdc_check_loop_eq:
  assumes "table_wf t" and "dims_fit t" and "unat (cols t) \<le> length row"
  shows "mcdc_check_loop t row 0 = Inr (checks (check_table t row))"
  using mcdc_check_loop_from [OF assms, of 0]
  by (simp add: check_table_def mark_first_def split: option.split)

lemma mcdc_check_loop_no_rows:
  "rows t = 0 \<Longrightarrow> mcdc_check_loop t row i = Inr (checks t)"
  by (simp add: mcdc_check_loop.simps [of t row i])

lemma mcdc_check_loop_short:
  "rows t \<noteq> 0 \<Longrightarrow> length row < unat (cols t) \<Longrightarrow> mcdc_check_loop t row 0 = Inl Read_oob"
  by (simp add: mcdc_check_loop.simps [of t row 0] buf_cmp_def word_neq_0_conv)

lemma registry_Some:
  "ctx_inv (m_mcdc_context st) \<Longrightarrow> registry st \<noteq> [] \<Longrightarrow>
   ctx_list (m_mcdc_context st) = Some (registry st)"
  by (auto simp: registry_def ctx_inv_def split: option.splits)

lemma registry_None:
  "ctx_inv (m_mcdc_context st) \<Longrightarrow> registry st = [] \<Longrightarrow> ctx_list (m_mcdc_context st) = None"
  by (auto simp: registry_def ctx_inv_def split: option.splits)

lemma mcdc_check_row_eq:
  assumes inv: "ctx_inv (m_mcdc_context st)" and k: "unat at_table < length (registry st)"
    and fit: "dims_fit (registry st ! unat at_table)"
    and long: "unat (cols (registry st ! unat at_table)) \<le> length row"
  shows "mcdc_check_row at_table row st =
     Inr (set_registry st ((registry st)[unat at_table :=
                             check_table (registry st ! unat at_table) row]))"
proof -
  let ?t = "registry st ! unat at_table"
  from k have ne: "registry st \<noteq> []" by auto
  from inv ne k have wf: "table_wf ?t"
    by (auto simp: ctx_inv_def registry_def list_all_length split: option.splits)
  have "check_table ?t row = ?t\<lparr>checks := checks (check_table ?t row)\<rparr>"
    by (simp add: check_table_def)
  then show ?thesis
    using registry_Some [OF inv ne] k mcdc_check_loop_eq [OF wf fit long]
    by (simp add: mcdc_check_row_def buf_load_def set_registry_def)
qed

lemma update_last: "xs \<noteq> [] \<Longrightarrow> xs[length xs - 1 := v] = butlast xs @ [v]"
  by (induction xs) (auto simp: nth_append split: nat.split)

lemma last_slot:
  assumes "ctx_inv (m_mcdc_context st)" and "registry st \<noteq> []"
  shows "unat (ctx_len (m_mcdc_context st) - 1) = length (registry st) - 1"
proof -
  from assms have len: "unat (ctx_len (m_mcdc_context st)) = length (registry st)"
    by (auto simp: ctx_inv_def registry_def split: option.splits)
  with assms(2) have "ctx_len (m_mcdc_context st) \<noteq> 0" by (metis length_0_conv unat_0)
  with len show ?thesis by (simp add: unat_minus_one)
qed

lemma buf_copy_register_table:
  assumes "table_wf t" and "dims_fit t" and "k < unat (rows t)" and "unat (cols t) \<le> length v"
  shows "buf_copy (table t) (k * unat (cols t)) v (unat (cols t)) = Inr (table (register_table t k v))"
proof -
  have "k * unat (cols t) + unat (cols t) \<le> length (table t)"
    using assms(3) table_wf_length [OF assms(1,2)] by (simp add: row_offset_bound)
  with assms(4) show ?thesis by (simp add: buf_copy_def register_table_def Let_def)
qed

lemma expected_row_register_table:
  assumes "table_wf t" and "dims_fit t" and "k < unat (rows t)" and "unat (cols t) \<le> length v"
    and "j < unat (rows t)"
  shows "expected_row (register_table t k v) j =
           (if j = k then take (unat (cols t)) v else expected_row t j)"
proof -
  note cp = buf_copy_register_table [OF assms(1-4)]
  have c: "cols (register_table t k v) = cols t" by (simp add: register_table_def Let_def)
  show ?thesis
  proof (cases "j = k")
    case True
    with cp c show ?thesis by (simp add: expected_row_def buf_slice_copy_same)
  next
    case False
    then have "j * unat (cols t) + unat (cols t) \<le> k * unat (cols t) \<or>
               k * unat (cols t) + unat (cols t) \<le> j * unat (cols t)"
      by (rule rows_disjoint)
    with cp c False show ?thesis by (simp add: expected_row_def buf_slice_copy_other)
  qed
qed

lemma mcdc_register_row_eq:
  assumes inv: "ctx_inv (m_mcdc_context st)" and ne: "registry st \<noteq> []"
    and fit: "dims_fit (last (registry st))"
    and cur: "m_nrows st < rows (last (registry st))"
    and long: "unat (cols (last (registry st))) \<le> length conds"
  shows "mcdc_register_row conds st =
     Inr ((set_registry st (butlast (registry st) @
             [register_table (last (registry st)) (unat (m_nrows st)) conds]))
          \<lparr>m_nrows := m_nrows st + 1\<rparr>)"
proof -
  let ?t = "last (registry st)"
  from inv ne have wf: "table_wf ?t"
    by (auto simp: ctx_inv_def registry_def list_all_iff split: option.splits)
  have off: "unat (m_nrows st * cols ?t) = unat (m_nrows st) * unat (cols ?t)"
    using fit cur unfolding dims_fit_def by (rule unat_row_offset)
  from cur have k: "unat (m_nrows st) < unat (rows ?t)" by (simp add: word_less_nat_alt)
  have nth: "registry st ! (length (registry st) - 1) = ?t"
    using ne by (simp add: last_conv_nth)
  have upd: "?t\<lparr>table := table (register_table ?t (unat (m_nrows st)) conds)\<rparr> =
             register_table ?t (unat (m_nrows st)) conds"
    by (simp add: register_table_def Let_def)
  show ?thesis
    using registry_Some [OF inv ne] last_slot [OF inv ne] ne nth off upd
      buf_copy_register_table [OF wf fit k long] update_last [OF ne]
    by (simp add: mcdc_register_row_def buf_load_def set_registry_def)
qed

lemma mcdc_register_row_defined_copy:
  assumes inv: "ctx_inv (m_mcdc_context st)" and ne: "registry st \<noteq> []"
  shows "(\<exists>st'. mcdc_register_row conds st = Inr st') \<longleftrightarrow>
     (\<exists>tb. buf_copy (table (last (registry st))) (unat (m_nrows st * cols (last (registry st))))
             conds (unat (cols (last (registry st)))) = Inr tb)"
  using registry_Some [OF inv ne] last_slot [OF inv ne] ne
  by (auto simp: mcdc_register_row_def buf_load_def sbind_eq_Inr last_conv_nth)

lemma mcdc_register_row_no_table:
  "ctx_inv (m_mcdc_context st) \<Longrightarrow> registry st = [] \<Longrightarrow>
   mcdc_register_row conds st = Inl Null_deref"
  by (simp add: mcdc_register_row_def registry_None)

subsection \<open>The registry invariant\<close>

text \<open>What a returning registration or check did, read off its definition.\<close>

lemma mcdc_register_row_InrE:
  assumes "mcdc_register_row conds st = Inr st'"
  obtains xs t tb where "ctx_list (m_mcdc_context st) = Some xs"
    and "buf_load xs (unat (ctx_len (m_mcdc_context st) - 1)) = Inr t"
    and "buf_copy (table t) (unat (m_nrows st * cols t)) conds (unat (cols t)) = Inr tb"
    and "st' = st\<lparr>m_mcdc_context := (m_mcdc_context st)
                 \<lparr>ctx_list := Some (xs[unat (ctx_len (m_mcdc_context st) - 1) := t\<lparr>table := tb\<rparr>])\<rparr>,
               m_nrows := m_nrows st + 1\<rparr>"
  using assms by (auto simp: mcdc_register_row_def sbind_eq_Inr Let_def split: option.splits)

lemma mcdc_check_row_InrE:
  assumes "mcdc_check_row at_table row st = Inr st'"
  obtains xs t cs where "ctx_list (m_mcdc_context st) = Some xs"
    and "buf_load xs (unat at_table) = Inr t" and "mcdc_check_loop t row 0 = Inr cs"
    and "st' = st\<lparr>m_mcdc_context := (m_mcdc_context st)
                 \<lparr>ctx_list := Some (xs[unat at_table := t\<lparr>checks := cs\<rparr>])\<rparr>\<rparr>"
  using assms by (auto simp: mcdc_check_row_def sbind_eq_Inr Let_def split: option.splits)

lemma mcdc_register_row_heap:
  "mcdc_register_row conds st = Inr st' \<Longrightarrow>
   heap_blocks st' = heap_blocks st \<and> live_blocks st' = live_blocks st"
  by (elim mcdc_register_row_InrE) (simp add: live_blocks_def)

lemma mcdc_check_row_heap:
  "mcdc_check_row at_table row st = Inr st' \<Longrightarrow>
   heap_blocks st' = heap_blocks st \<and> live_blocks st' = live_blocks st"
  by (elim mcdc_check_row_InrE) (simp add: live_blocks_def)

lemma length_mcdc_check_loop:
  "mcdc_check_loop t row i = Inr cs \<Longrightarrow> length cs = length (checks t)"
proof (induction t row i rule: mcdc_check_loop.induct)
  case (1 t row i)
  then show ?case
    by (auto simp: mcdc_check_loop.simps [of t row i] sbind_eq_Inr buf_store_Inr
        split: if_splits)
qed

lemma mcdc_check_row_inv:
  assumes inv: "ctx_inv (m_mcdc_context st)"
    and ret: "mcdc_check_row at_table row st = Inr st'"
  shows "ctx_inv (m_mcdc_context st')"
proof -
  from ret obtain xs t cs where xs: "ctx_list (m_mcdc_context st) = Some xs"
    and t: "buf_load xs (unat at_table) = Inr t" and cs: "mcdc_check_loop t row 0 = Inr cs"
    and st': "st' = st\<lparr>m_mcdc_context := (m_mcdc_context st)
                        \<lparr>ctx_list := Some (xs[unat at_table := t\<lparr>checks := cs\<rparr>])\<rparr>\<rparr>"
    by (rule mcdc_check_row_InrE)
  from t have k: "unat at_table < length xs" and tx: "t = xs ! unat at_table"
    by (auto simp: buf_load_Inr)
  from inv xs k tx have "table_wf t" by (auto simp: ctx_inv_def list_all_length)
  with length_mcdc_check_loop [OF cs] have "table_wf (t\<lparr>checks := cs\<rparr>)"
    by (simp add: table_wf_def)
  with inv xs st' k show ?thesis
    by (auto simp: ctx_inv_def list_all_length nth_list_update)
qed

lemma mcdc_register_row_inv:
  assumes inv: "ctx_inv (m_mcdc_context st)"
    and ret: "mcdc_register_row conds st = Inr st'"
  shows "ctx_inv (m_mcdc_context st')"
proof -
  let ?k = "unat (ctx_len (m_mcdc_context st) - 1)"
  from ret obtain xs t tb where xs: "ctx_list (m_mcdc_context st) = Some xs"
    and t: "buf_load xs ?k = Inr t"
    and tb: "buf_copy (table t) (unat (m_nrows st * cols t)) conds (unat (cols t)) = Inr tb"
    and st': "st' = st\<lparr>m_mcdc_context := (m_mcdc_context st)
                        \<lparr>ctx_list := Some (xs[?k := t\<lparr>table := tb\<rparr>])\<rparr>,
                      m_nrows := m_nrows st + 1\<rparr>"
    by (rule mcdc_register_row_InrE)
  from t have k: "?k < length xs" and tx: "t = xs ! ?k"
    by (auto simp: buf_load_Inr)
  from inv xs k tx have "table_wf t" by (auto simp: ctx_inv_def list_all_length)
  with length_buf_copy [OF tb] have "table_wf (t\<lparr>table := tb\<rparr>)"
    by (simp add: table_wf_def)
  with inv xs st' k show ?thesis
    by (auto simp: ctx_inv_def list_all_length nth_list_update)
qed

subsection \<open>Shared facts for the properties\<close>

lemma first_match_Some_iff:
  "first_match xs v = Some i \<longleftrightarrow> i < length xs \<and> xs ! i = v \<and> (\<forall>j < i. xs ! j \<noteq> v)"
proof (induction xs arbitrary: i)
  case Nil
  then show ?case by simp
next
  case (Cons x xs)
  show ?case
  proof (cases i)
    case 0
    then show ?thesis by auto
  next
    case (Suc k)
    with Cons.IH [of k] show ?thesis
      by (auto simp: less_Suc_eq_0_disj)
  qed
qed

lemma first_match_None_iff: "first_match xs v = None \<longleftrightarrow> v \<notin> set xs"
  by (induction xs) auto

lemma set_registry_same:
  "ctx_inv (m_mcdc_context st) \<Longrightarrow> registry st \<noteq> [] \<Longrightarrow> set_registry st (registry st) = st"
  by (simp add: set_registry_def registry_Some)

lemma registry_set_registry [simp]: "registry (set_registry st xs) = xs"
  by (simp add: set_registry_def registry_def)

lemma registry_nrows_update [simp]: "registry (st\<lparr>m_nrows := n\<rparr>) = registry st"
  by (simp add: registry_def)

lemma m_nrows_set_registry [simp]: "m_nrows (set_registry st xs) = m_nrows st"
  by (simp add: set_registry_def)

lemma mcdc_register_row_Inr:
  assumes inv: "ctx_inv (m_mcdc_context st)" and ret: "mcdc_register_row conds st = Inr st'"
  obtains t tb where "registry st \<noteq> []" and "t = last (registry st)"
    and "registry st' = butlast (registry st) @ [t\<lparr>table := tb\<rparr>]"
proof -
  let ?k = "unat (ctx_len (m_mcdc_context st) - 1)"
  from ret obtain xs t tb where xs: "ctx_list (m_mcdc_context st) = Some xs"
    and t: "buf_load xs ?k = Inr t"
    and st': "registry st' = xs[?k := t\<lparr>table := tb\<rparr>]"
    by (elim mcdc_register_row_InrE) (auto simp: registry_def)
  from inv xs have ne: "registry st \<noteq> []" and reg: "registry st = xs"
    by (auto simp: ctx_inv_def registry_def)
  from last_slot [OF inv ne] reg have k: "?k = length xs - 1" by simp
  from t k ne reg have "t = last (registry st)" by (simp add: buf_load_Inr last_conv_nth)
  with that ne st' k reg update_last [OF ne] show ?thesis by simp
qed

subsection \<open>Properties of the matcher\<close>

text \<open>C1 (first-match rule, spec 4.2): checking a vector against a table whose
  row \<open>i\<close> is the first row equal to it sets exactly the observed flag of row
  \<open>i\<close> and changes nothing else.\<close>

theorem check_row_marks_first_match:
  assumes inv: "ctx_inv (m_mcdc_context st)" and k: "unat at_table < length (registry st)"
    and t: "t = registry st ! unat at_table" and fit: "dims_fit t"
    and long: "unat (cols t) \<le> length v"
    and i: "i < unat (rows t)" and hit: "expected_row t i = take (unat (cols t)) v"
    and first: "\<forall>j < i. expected_row t j \<noteq> take (unat (cols t)) v"
  shows "mcdc_check_row at_table v st =
           Inr (set_registry st ((registry st)[unat at_table := t\<lparr>checks := (checks t)[i := True]\<rparr>]))"
proof -
  have "first_match (expected_rows t) (take (unat (cols t)) v) = Some i"
    using i hit first by (simp add: first_match_Some_iff)
  then have "check_table t v = t\<lparr>checks := (checks t)[i := True]\<rparr>"
    by (simp add: check_table_def mark_first_def)
  with mcdc_check_row_eq [OF inv k] fit long t show ?thesis by simp
qed

text \<open>C2 (no match is a no-op, spec 4.2 and 7): a vector equal to no row of
  the table leaves the whole state unchanged.\<close>

theorem check_row_no_match_unchanged:
  assumes inv: "ctx_inv (m_mcdc_context st)" and k: "unat at_table < length (registry st)"
    and t: "t = registry st ! unat at_table" and fit: "dims_fit t"
    and long: "unat (cols t) \<le> length v"
    and miss: "\<forall>i < unat (rows t). expected_row t i \<noteq> take (unat (cols t)) v"
  shows "mcdc_check_row at_table v st = Inr st"
proof -
  have "first_match (expected_rows t) (take (unat (cols t)) v) = None"
    using miss by (auto simp: first_match_None_iff in_set_conv_nth)
  then have "check_table t v = t" by (simp add: check_table_def mark_first_def)
  moreover from k have "registry st \<noteq> []" by auto
  ultimately show ?thesis
    using mcdc_check_row_eq [OF inv k] fit long t set_registry_same [OF inv] by simp
qed

text \<open>C3 (the loop implements the first-match rule): on every well-formed table
  whose size did not wrap, the C loop of \<open>mcdc_check_row\<close> (word indices,
  \<open>memcmp\<close> on the flat buffer, \<open>break\<close> on the first hit) returns the flags that
  \<open>mark_first\<close> computes on the list of rows.\<close>

theorem check_loop_refines_mark_first:
  assumes "table_wf t" and "dims_fit t" and "unat (cols t) \<le> length row"
  shows "mcdc_check_loop t row 0 =
           Inr (mark_first (expected_rows t) (take (unat (cols t)) row) (checks t))"
  using mcdc_check_loop_from [OF assms, of 0]
  by (simp add: mark_first_def split: option.split)

text \<open>C4 (registration, spec 4.2): while the cursor is below \<open>rows\<close>,
  registering a vector writes it as row \<open>m_nrows\<close> of the most recent table,
  leaves its other rows, its flags and every earlier table alone, and advances
  the cursor.\<close>

theorem register_row_fills_cursor_row:
  assumes inv: "ctx_inv (m_mcdc_context st)" and ne: "registry st \<noteq> []"
    and t: "t = last (registry st)" and fit: "dims_fit t"
    and cur: "m_nrows st < rows t" and long: "unat (cols t) \<le> length v"
  shows "\<exists>st'. mcdc_register_row v st = Inr st' \<and> m_nrows st' = m_nrows st + 1 \<and>
           butlast (registry st') = butlast (registry st) \<and> registry st' \<noteq> [] \<and>
           checks (last (registry st')) = checks t \<and>
           (\<forall>j < unat (rows t). expected_row (last (registry st')) j =
              (if j = unat (m_nrows st) then take (unat (cols t)) v else expected_row t j))"
proof -
  from inv ne have wf: "table_wf t"
    using t by (auto simp: ctx_inv_def registry_def list_all_iff split: option.splits)
  from cur have k: "unat (m_nrows st) < unat (rows t)" by (simp add: word_less_nat_alt)
  have rows: "\<forall>j < unat (rows t). expected_row (register_table t (unat (m_nrows st)) v) j =
              (if j = unat (m_nrows st) then take (unat (cols t)) v else expected_row t j)"
    using expected_row_register_table [OF wf fit k long] by simp
  have "checks (register_table t (unat (m_nrows st)) v) = checks t"
    by (simp add: register_table_def Let_def)
  with rows mcdc_register_row_eq [OF inv ne] fit cur long t show ?thesis by simp
qed

text \<open>C5 (isolation across tables, spec 8): a registration changes no table but
  the most recently allocated one.\<close>

theorem register_row_isolates_other_tables:
  assumes inv: "ctx_inv (m_mcdc_context st)" and ret: "mcdc_register_row v st = Inr st'"
    and k: "k < length (registry st) - 1"
  shows "registry st' ! k = registry st ! k \<and> length (registry st') = length (registry st)"
proof -
  from mcdc_register_row_Inr [OF inv ret] obtain t tb where ne: "registry st \<noteq> []"
    and st': "registry st' = butlast (registry st) @ [t\<lparr>table := tb\<rparr>]" by blast
  from k have "k < length (butlast (registry st))" by simp
  with st' ne show ?thesis by (simp add: nth_append nth_butlast)
qed

text \<open>C6 (over-registration, spec 4.2 and 7): once the cursor has reached
  \<open>rows\<close>, a further registration into a table with at least one column writes
  past the end of its matrix, which is undefined behaviour: the C code has no
  bound check.\<close>

theorem register_row_overrun_is_ub:
  assumes inv: "ctx_inv (m_mcdc_context st)" and ne: "registry st \<noteq> []"
    and fit: "dims_fit (last (registry st))"
    and cur: "rows (last (registry st)) \<le> m_nrows st"
    and nowrap: "unat (m_nrows st) * unat (cols (last (registry st))) < 2 ^ 32"
    and pos: "0 < cols (last (registry st))"
    and long: "unat (cols (last (registry st))) \<le> length v"
  shows "mcdc_register_row v st = Inl Write_oob"
proof -
  let ?t = "last (registry st)"
  from inv ne have wf: "table_wf ?t"
    by (auto simp: ctx_inv_def registry_def list_all_iff split: option.splits)
  have off: "unat (m_nrows st * cols ?t) = unat (m_nrows st) * unat (cols ?t)"
    using nowrap by (rule unat_mult_no_wrap)
  from cur have "unat (rows ?t) * unat (cols ?t) \<le> unat (m_nrows st) * unat (cols ?t)"
    by (simp add: word_le_nat_alt)
  moreover from pos have "0 < unat (cols ?t)" by (simp add: unat_gt_0)
  ultimately have "length (table ?t) < unat (m_nrows st * cols ?t) + unat (cols ?t)"
    using table_wf_length [OF wf fit] off by linarith
  moreover have "registry st ! (length (registry st) - 1) = ?t"
    using ne by (simp add: last_conv_nth)
  ultimately show ?thesis
    using registry_Some [OF inv ne] last_slot [OF inv ne] ne long
    by (simp add: mcdc_register_row_def buf_load_def buf_copy_def)
qed

text \<open>Bad table index (spec 7): checking against a table index at or past
  the number of tables is undefined behaviour: a \<open>NULL\<close> dereference before the
  first allocation, a read past the list afterwards.\<close>

theorem check_row_bad_index_is_ub:
  assumes "ctx_inv (m_mcdc_context st)" and "length (registry st) \<le> unat at_table"
  shows "mcdc_check_row at_table row st =
     Inl (if registry st = [] then Null_deref else Read_oob)"
proof (cases "registry st = []")
  case True
  with assms(1) show ?thesis by (simp add: mcdc_check_row_def registry_None)
next
  case False
  with assms show ?thesis by (simp add: mcdc_check_row_def registry_Some buf_load_def)
qed

text \<open>C33 (when a check is defined, spec 7): on a well-formed registry whose
  tables' sizes fit in \<open>unsigned int\<close>, \<open>mcdc_check_row\<close> returns exactly when
  the table index is in range and either the table has no rows or the observed
  vector holds at least \<open>cols\<close> conditions; every other call is undefined
  behaviour.  The spec's \<open>Wrong_width\<close> error for a longer vector has no C
  counterpart: the extra conditions are ignored.\<close>

theorem check_row_defined_iff:
  assumes inv: "ctx_inv (m_mcdc_context st)" and fit: "list_all dims_fit (registry st)"
  shows "(\<exists>st'. mcdc_check_row at_table row st = Inr st') \<longleftrightarrow>
     unat at_table < length (registry st) \<and>
     (rows (registry st ! unat at_table) = 0 \<or> unat (cols (registry st ! unat at_table)) \<le> length row)"
proof (cases "unat at_table < length (registry st)")
  case False
  then show ?thesis using check_row_bad_index_is_ub [OF inv, of at_table row] by auto
next
  case k: True
  define t where "t = registry st ! unat at_table"
  have ne: "registry st \<noteq> []" using k by auto
  note some = registry_Some [OF inv ne]
  have tfit: "dims_fit t" using fit k by (simp add: t_def list_all_length)
  consider (empty) "rows t = 0" | (long) "unat (cols t) \<le> length row"
    | (short) "rows t \<noteq> 0" "length row < unat (cols t)" by fastforce
  then show ?thesis
  proof cases
    case empty
    then show ?thesis using some k
      by (simp add: t_def mcdc_check_row_def buf_load_def mcdc_check_loop_no_rows)
  next
    case long
    then show ?thesis using mcdc_check_row_eq [OF inv k] tfit k by (simp add: t_def)
  next
    case short
    then show ?thesis using some k
      by (simp add: t_def mcdc_check_row_def buf_load_def mcdc_check_loop_short)
  qed
qed

end
