(* ===== verification/MCDC_Machine.thy ===== *)
theory MCDC_Machine
  imports MCDC_Matcher
begin

text \<open>
  The library's public interface (\<open>src/mcdc.h\<close>: \<open>mcdc_alloc_table\<close>,
  \<open>mcdc_register_row\<close> through \<open>MCDC_REGISTER\<close>, \<open>mcdc_check_row\<close> through
  \<open>MCDC_CHECK\<close>) as a datatype of calls, one step function dispatching them,
  runs of call sequences and the states reachable from the initial globals by
  any sequence of calls with any allocator outcomes.  The report
  (\<open>mcdc_check_mcdc\<close>) reads the state only and is not a step.  The lemmas lift
  the per-operation invariant of \<open>MCDC_Context\<close> and \<open>MCDC_Matcher\<close> to every
  reachable state, prove that no call clears an observed flag, and that the
  registration cursor stays within the table being built (\<open>cursor_ok\<close>).
\<close>

datatype mcdc_call =
    Alloc_table alloc_outcome u32 u32 string
  | Register_row "bool list"
  | Check_row u32 "bool list"

fun mcdc_call_step :: "mcdc_call \<Rightarrow> mcdc_state \<Rightarrow> mcdc_state c_result" where
  "mcdc_call_step (Alloc_table ok n_rows n_cols t_name) st = mcdc_alloc_table ok n_rows n_cols t_name st"
| "mcdc_call_step (Register_row conds) st = mcdc_register_row conds st"
| "mcdc_call_step (Check_row at_table row) st = mcdc_check_row at_table row st"

fun mcdc_run :: "mcdc_call list \<Rightarrow> mcdc_state \<Rightarrow> mcdc_state c_result" where
  "mcdc_run [] st = Inr st"
| "mcdc_run (c # cs) st = sbind (mcdc_call_step c st) (mcdc_run cs)"

inductive mcdc_reachable :: "mcdc_state \<Rightarrow> bool" where
  init: "mcdc_reachable mcdc_init"
| step: "mcdc_reachable st \<Longrightarrow> mcdc_call_step c st = Inr st' \<Longrightarrow> mcdc_reachable st'"

text \<open>Observed flags only grow: every table keeps its flags or sets more of them,
  and tables are only ever appended.\<close>

definition flags_grow :: "mcdc_state \<Rightarrow> mcdc_state \<Rightarrow> bool" where
  "flags_grow st st' \<longleftrightarrow>
     length (registry st) \<le> length (registry st') \<and>
     list_all2 (\<lambda>t t'. list_all2 (\<longrightarrow>) (checks t) (checks t'))
       (registry st) (take (length (registry st)) (registry st'))"

text \<open>The registration cursor stays inside the table being built: once the
  last table has a column, \<open>m_nrows\<close> never passes its \<open>rows\<close>.\<close>

definition cursor_ok :: "mcdc_state \<Rightarrow> bool" where
  "cursor_ok st \<longleftrightarrow>
     registry st = [] \<or> cols (last (registry st)) = 0 \<or> m_nrows st \<le> rows (last (registry st))"

lemma mcdc_init_inv: "ctx_inv (m_mcdc_context mcdc_init)"
  by (simp add: mcdc_init_def ctx_inv_def)

lemma mcdc_call_step_inv:
  "ctx_inv (m_mcdc_context st) \<Longrightarrow> mcdc_call_step c st = Inr st' \<Longrightarrow>
   ctx_inv (m_mcdc_context st')"
  by (cases c) (auto intro: mcdc_alloc_table_inv mcdc_register_row_inv mcdc_check_row_inv)

lemma mcdc_reachable_inv: "mcdc_reachable st \<Longrightarrow> ctx_inv (m_mcdc_context st)"
  by (induction rule: mcdc_reachable.induct) (auto intro: mcdc_init_inv mcdc_call_step_inv)

lemma mcdc_run_reachable:
  "mcdc_reachable st \<Longrightarrow> mcdc_run cs st = Inr st' \<Longrightarrow> mcdc_reachable st'"
proof (induction cs arbitrary: st)
  case Nil
  then show ?case by simp
next
  case (Cons c cs)
  then obtain st1 where "mcdc_call_step c st = Inr st1" and "mcdc_run cs st1 = Inr st'"
    by (auto simp: sbind_eq_Inr)
  with Cons show ?case by (blast intro: mcdc_reachable.step)
qed

lemma mcdc_check_loop_grows:
  "mcdc_check_loop t row i = Inr cs \<Longrightarrow> list_all2 (\<longrightarrow>) (checks t) cs"
proof (induction t row i rule: mcdc_check_loop.induct)
  case (1 t row i)
  then show ?case
    by (auto simp: mcdc_check_loop.simps [of t row i] sbind_eq_Inr buf_store_Inr
        list_all2_conv_all_nth nth_list_update split: if_splits)
qed

lemma list_all2_imp_refl: "list_all2 (\<longrightarrow>) xs xs"
  by (simp add: list_all2_conv_all_nth)

lemma flags_grow_update:
  assumes "k < length xs" and "list_all2 (\<longrightarrow>) (checks (xs ! k)) (checks t)"
  shows "list_all2 (\<lambda>t t'. list_all2 (\<longrightarrow>) (checks t) (checks t')) xs (xs[k := t])"
  using assms by (auto simp: list_all2_conv_all_nth nth_list_update list_all2_imp_refl)

lemma flags_grow_refl: "flags_grow st st"
  by (simp add: flags_grow_def list_all2_conv_all_nth list_all2_imp_refl)

lemma flags_grow_append: "registry st' = registry st @ ts \<Longrightarrow> flags_grow st st'"
  by (simp add: flags_grow_def list_all2_conv_all_nth list_all2_imp_refl nth_append)

lemma mcdc_alloc_table_flags_grow:
  assumes inv: "ctx_inv (m_mcdc_context st)"
    and ret: "mcdc_alloc_table ok n_rows n_cols t_name st = Inr st'"
  shows "flags_grow st st'"
proof (cases "checks_ok ok \<and> table_ok ok \<and> list_ok ok \<and> ctx_len (m_mcdc_context st) \<noteq> - 1")
  case True
  with inv ret have "registry st' = registry st @ [new_table n_rows n_cols t_name]"
    by (auto simp: mcdc_alloc_table_ok registry_def)
  then show ?thesis by (rule flags_grow_append)
next
  case False
  have "\<not> checks_ok ok \<or> \<not> table_ok ok"
  proof (rule ccontr)
    assume "\<not> (\<not> checks_ok ok \<or> \<not> table_ok ok)"
    with False inv ret show False
      by (cases "list_ok ok") (auto simp: mcdc_alloc_table_list_fail_not_Inr mcdc_alloc_table_full)
  qed
  with ret have "registry st' = registry st @ []"
    by (auto simp: mcdc_alloc_table_buffer_fail registry_def)
  then show ?thesis by (rule flags_grow_append)
qed

lemma mcdc_register_row_flags_grow:
  assumes ret: "mcdc_register_row conds st = Inr st'"
  shows "flags_grow st st'"
proof -
  let ?k = "unat (ctx_len (m_mcdc_context st) - 1)"
  from ret obtain xs t tb where xs: "ctx_list (m_mcdc_context st) = Some xs"
    and t: "buf_load xs ?k = Inr t"
    and st': "registry st' = xs[?k := t\<lparr>table := tb\<rparr>]"
    by (elim mcdc_register_row_InrE) (auto simp: registry_def)
  from t have "?k < length xs" and "t = xs ! ?k" by (auto simp: buf_load_Inr)
  with xs st' show ?thesis
    by (simp add: flags_grow_def registry_def flags_grow_update list_all2_imp_refl)
qed

lemma mcdc_check_row_flags_grow:
  assumes ret: "mcdc_check_row at_table row st = Inr st'"
  shows "flags_grow st st'"
proof -
  from ret obtain xs t cs where xs: "ctx_list (m_mcdc_context st) = Some xs"
    and t: "buf_load xs (unat at_table) = Inr t" and cs: "mcdc_check_loop t row 0 = Inr cs"
    and st': "registry st' = xs[unat at_table := t\<lparr>checks := cs\<rparr>]"
    by (elim mcdc_check_row_InrE) (auto simp: registry_def)
  from t have "unat at_table < length xs" and "t = xs ! unat at_table" by (auto simp: buf_load_Inr)
  with xs st' mcdc_check_loop_grows [OF cs] show ?thesis
    by (simp add: flags_grow_def registry_def flags_grow_update)
qed

lemma mcdc_call_step_flags_grow:
  assumes "ctx_inv (m_mcdc_context st)" and "mcdc_call_step c st = Inr st'"
  shows "flags_grow st st'"
  using assms
  by (cases c) (auto intro: mcdc_alloc_table_flags_grow mcdc_register_row_flags_grow
      mcdc_check_row_flags_grow)

subsection \<open>The registration cursor\<close>

lemma mcdc_alloc_table_nrows:
  "mcdc_alloc_table ok n_rows n_cols t_name st = Inr st' \<Longrightarrow> m_nrows st' = 0"
  by (auto simp: mcdc_alloc_table_def try_call_def try_mcdc_alloc_table_def
      try_mcdc_alloc_checks_def Let_def sbind_eq_Inr split: option.splits prod.splits if_splits)

lemma cursor_stops_at_rows:
  assumes "cols t \<noteq> 0" and "unat (m * cols t) + unat (cols t) \<le> unat (rows t * cols t)"
    and "m \<le> rows t"
  shows "m + 1 \<le> rows t"
proof -
  have "m \<noteq> rows t" using assms(1,2) by (auto simp: unat_eq_zero)
  with assms(3) have "m < rows t" by simp
  then show ?thesis by (rule inc_le)
qed

lemma mcdc_register_row_cursor_ok:
  assumes inv: "ctx_inv (m_mcdc_context st)" and ok: "cursor_ok st"
    and ret: "mcdc_register_row conds st = Inr st'"
  shows "cursor_ok st'"
proof -
  let ?k = "unat (ctx_len (m_mcdc_context st) - 1)"
  from ret obtain xs t tb where xs: "ctx_list (m_mcdc_context st) = Some xs"
    and t: "buf_load xs ?k = Inr t"
    and tb: "buf_copy (table t) (unat (m_nrows st * cols t)) conds (unat (cols t)) = Inr tb"
    and st': "registry st' = xs[?k := t\<lparr>table := tb\<rparr>]" "m_nrows st' = m_nrows st + 1"
    by (elim mcdc_register_row_InrE) (auto simp: registry_def)
  have reg: "registry st = xs" using xs by (simp add: registry_def)
  from inv xs have ne: "xs \<noteq> []" by (simp add: ctx_inv_def)
  have k: "?k = length xs - 1" using last_slot [OF inv] ne reg by simp
  with t ne have tl: "t = last xs" by (simp add: buf_load_Inr last_conv_nth)
  have wf: "table_wf t" using inv xs ne tl by (simp add: ctx_inv_def list_all_iff)
  have last': "last (registry st') = t\<lparr>table := tb\<rparr>" using st' k ne by (simp add: last_list_update)
  show ?thesis
  proof (cases "cols t = 0")
    case False
    have "unat (m_nrows st * cols t) + unat (cols t) \<le> unat (rows t * cols t)"
      using tb wf by (simp add: buf_copy_def table_wf_def split: if_splits)
    moreover have "m_nrows st \<le> rows t" using ok False reg ne tl by (simp add: cursor_ok_def)
    ultimately show ?thesis using False last' st' by (simp add: cursor_ok_def cursor_stops_at_rows)
  qed (simp add: cursor_ok_def last')
qed

lemma mcdc_check_row_cursor_ok:
  assumes ok: "cursor_ok st" and ret: "mcdc_check_row at_table row st = Inr st'"
  shows "cursor_ok st'"
proof -
  from ret obtain xs t cs where xs: "ctx_list (m_mcdc_context st) = Some xs"
    and t: "buf_load xs (unat at_table) = Inr t"
    and st': "registry st' = xs[unat at_table := t\<lparr>checks := cs\<rparr>]" "m_nrows st' = m_nrows st"
    by (elim mcdc_check_row_InrE) (auto simp: registry_def)
  from t have k: "unat at_table < length xs" and tx: "t = xs ! unat at_table"
    by (auto simp: buf_load_Inr)
  then have ne: "xs \<noteq> []" by auto
  have "rows (last (registry st')) = rows (last xs) \<and> cols (last (registry st')) = cols (last xs)"
    using st' k tx ne by (simp add: last_conv_nth nth_list_update)
  with ok xs k st' show ?thesis by (auto simp: cursor_ok_def registry_def)
qed

lemma mcdc_reachable_cursor_ok: "mcdc_reachable st \<Longrightarrow> cursor_ok st"
proof (induction rule: mcdc_reachable.induct)
  case init
  then show ?case by (simp add: cursor_ok_def mcdc_init_def)
next
  case (step st c st')
  note inv = mcdc_reachable_inv [OF step.hyps(1)]
  show ?case
  proof (cases c)
    case (Alloc_table ok n_rows n_cols t_name)
    with step.hyps(2) show ?thesis by (simp add: cursor_ok_def mcdc_alloc_table_nrows)
  next
    case (Register_row conds)
    with step.hyps(2) show ?thesis by (simp add: mcdc_register_row_cursor_ok [OF inv step.IH])
  next
    case (Check_row at_table row)
    with step.hyps(2) show ?thesis by (simp add: mcdc_check_row_cursor_ok [OF step.IH])
  qed
qed

subsection \<open>Heap blocks\<close>

lemma mcdc_reachable_heap: "mcdc_reachable st \<Longrightarrow> live_blocks st \<le> heap_blocks st"
proof (induction rule: mcdc_reachable.induct)
  case init
  then show ?case by (simp add: live_blocks_def mcdc_init_def)
next
  case (step st c st')
  note inv = mcdc_reachable_inv [OF step.hyps(1)]
  show ?case
  proof (cases c)
    case (Alloc_table ok n_rows n_cols t_name)
    with step show ?thesis using mcdc_alloc_table_heap [OF inv] by simp
  next
    case (Register_row conds)
    with step show ?thesis using mcdc_register_row_heap by fastforce
  next
    case (Check_row at_table row)
    with step show ?thesis using mcdc_check_row_heap by fastforce
  qed
qed

subsection \<open>Logged faults\<close>

text \<open>The only undefined behaviour a returning call performs is the logged
  out-of-bounds write of the regrow \<open>memset\<close>.\<close>

lemma mcdc_call_step_faults:
  assumes "mcdc_call_step c st = Inr st'"
  shows "\<exists>k. faults st' = faults st @ replicate k Write_oob"
proof (cases c)
  case (Alloc_table ok n_rows n_cols t_name)
  with assms have "faults st' = faults st \<or> faults st' = faults st @ [Write_oob]"
    by (simp add: mcdc_alloc_table_faults)
  then show ?thesis by (metis append_Nil2 replicate_0 replicate_Suc)
next
  case (Register_row conds)
  with assms have "faults st' = faults st" by (auto elim: mcdc_register_row_InrE)
  then show ?thesis by (metis append_Nil2 replicate_0)
next
  case (Check_row at_table row)
  with assms have "faults st' = faults st" by (auto elim: mcdc_check_row_InrE)
  then show ?thesis by (metis append_Nil2 replicate_0)
qed

lemma mcdc_run_faults:
  "mcdc_run cs st = Inr st' \<Longrightarrow> \<exists>k. faults st' = faults st @ replicate k Write_oob"
proof (induction cs arbitrary: st)
  case Nil
  then show ?case by (metis append_Nil2 mcdc_run.simps(1) replicate_0 sum.inject(2))
next
  case (Cons c cs)
  then obtain st1 where s1: "mcdc_call_step c st = Inr st1" and r: "mcdc_run cs st1 = Inr st'"
    by (auto simp: sbind_eq_Inr)
  obtain k1 where "faults st1 = faults st @ replicate k1 Write_oob"
    using mcdc_call_step_faults [OF s1] by blast
  moreover obtain k2 where "faults st' = faults st1 @ replicate k2 Write_oob"
    using Cons.IH [OF r] by blast
  ultimately have "faults st' = faults st @ replicate (k1 + k2) Write_oob"
    by (simp add: replicate_add)
  then show ?case by blast
qed

subsection \<open>Properties of every reachable state\<close>

text \<open>C8 (registry invariant): in every state reachable from the initial
  globals by any sequence of library calls and allocator outcomes, \<open>len\<close>
  counts the tables, the list is \<open>NULL\<close> exactly when there is none, and each
  table's matrix and flag buffers have the sizes \<open>mcdc_alloc_table\<close> asked
  \<open>calloc\<close> for.\<close>

theorem reachable_states_well_formed:
  assumes "mcdc_reachable st"
  shows "unat (ctx_len (m_mcdc_context st)) = length (registry st) \<and>
         (ctx_list (m_mcdc_context st) = None \<longleftrightarrow> registry st = []) \<and>
         (\<forall>t \<in> set (registry st).
            length (table t) = unat (rows t * cols t) \<and> length (checks t) = unat (rows t)) \<and>
         live_blocks st \<le> heap_blocks st"
proof -
  from assms have "ctx_inv (m_mcdc_context st)" by (rule mcdc_reachable_inv)
  with mcdc_reachable_heap [OF assms] show ?thesis
    by (auto simp: ctx_inv_def registry_def table_wf_def list_all_iff split: option.splits)
qed

text \<open>C9 (observed flags are never cleared): from every reachable state, every
  library call keeps each existing table's observed flags or sets more of them,
  and never removes a table; so a row counted as checked stays checked.\<close>

theorem observed_flags_never_cleared:
  assumes "mcdc_reachable st" and "mcdc_call_step c st = Inr st'"
  shows "flags_grow st st'"
  using mcdc_reachable_inv [OF assms(1)] assms(2) by (rule mcdc_call_step_flags_grow)

text \<open>C34 (registration never overruns silently, spec 4.2): in every reachable
  state the registration cursor is at most the \<open>rows\<close> of the most recently
  allocated table, when that table has a column.  Registering past the last row
  is therefore never a successful step: it is the undefined behaviour of C6.
  Allocation resets the cursor, a check leaves it and the table shapes alone,
  and a registration at cursor \<open>rows\<close> would write at the end of the matrix.\<close>

theorem reachable_cursor_within_last_table:
  assumes "mcdc_reachable st" and "registry st \<noteq> []" and "cols (last (registry st)) \<noteq> 0"
  shows "m_nrows st \<le> rows (last (registry st))"
  using mcdc_reachable_cursor_ok [OF assms(1)] assms(2,3) by (simp add: cursor_ok_def)

text \<open>C7 (when a registration is defined, spec 4.2 and 7): in every reachable
  state where no table size wrapped, \<open>mcdc_register_row\<close> returns exactly when a
  table has been allocated and either the latest table has no columns or the
  vector holds at least \<open>cols\<close> conditions and the cursor is below \<open>rows\<close>.
  Every other call is undefined behaviour: registering before the first
  allocation (\<open>NULL\<close> list), a vector that is too short (read past it), or
  one row too many (write past the matrix).  Registration into a table with no
  columns never fails, whatever the cursor.\<close>

theorem register_row_defined_iff:
  assumes reach: "mcdc_reachable st" and fit: "list_all dims_fit (registry st)"
  shows "(\<exists>st'. mcdc_register_row conds st = Inr st') \<longleftrightarrow>
     registry st \<noteq> [] \<and>
     (cols (last (registry st)) = 0 \<or>
      unat (cols (last (registry st))) \<le> length conds \<and> m_nrows st < rows (last (registry st)))"
proof (cases "registry st = []")
  case True
  then show ?thesis using mcdc_register_row_no_table [OF mcdc_reachable_inv [OF reach]] by simp
next
  case ne: False
  note inv = mcdc_reachable_inv [OF reach]
  define t where "t = last (registry st)"
  have wf: "table_wf t" using inv ne
    by (auto simp: t_def ctx_inv_def registry_def list_all_iff split: option.splits)
  have tfit: "dims_fit t" using fit ne by (simp add: t_def list_all_iff)
  note copy = mcdc_register_row_defined_copy [OF inv ne, folded t_def]
  show ?thesis
  proof (cases "cols t = 0")
    case True
    then show ?thesis using copy ne by (simp add: t_def buf_copy_defined)
  next
    case c: False
    have len: "length (table t) = unat (rows t) * unat (cols t)" by (rule table_wf_length [OF wf tfit])
    have "m_nrows st \<le> rows t"
      using mcdc_reachable_cursor_ok [OF reach] ne c by (simp add: cursor_ok_def t_def)
    then consider (lt) "m_nrows st < rows t" | (eq) "m_nrows st = rows t" by fastforce
    then show ?thesis
    proof cases
      case lt
      have "unat (m_nrows st * cols t) = unat (m_nrows st) * unat (cols t)"
        using tfit lt unfolding dims_fit_def by (rule unat_row_offset)
      moreover have "unat (m_nrows st) < unat (rows t)" using lt by (simp add: word_less_nat_alt)
      ultimately show ?thesis using copy ne c lt len
        by (simp add: t_def buf_copy_defined row_offset_bound)
    next
      case eq
      have "unat (cols t) \<noteq> 0" using c by (simp add: unat_eq_zero)
      then show ?thesis using copy ne c eq wf by (simp add: t_def buf_copy_defined table_wf_def)
    qed
  qed
qed

end
