(* ===== verification/MCDC_Report.thy ===== *)
theory MCDC_Report
  imports MCDC_Context
begin

text \<open>
  The coverage reporter (\<open>src/mcdc.c\<close>: \<open>mcdc_check_mcdc\<close>).  For every table
  of the context, in allocation order, it counts the rows whose observed flag is
  set (\<open>count_checks\<close>), decides PASS when the count equals \<open>rows\<close> and prints a
  header and one line per row (\<open>print_header\<close>, \<open>print_rows\<close>, \<open>print_cells\<close>).
  The output is modelled as the exact text \<open>printf\<close> writes: \<open>%u\<close> is
  \<open>fmt_u\<close>, \<open>%39s\<close> is \<open>pad_left 39\<close>, \<open>\n\<close> is \<open>nl\<close>.  The report only reads
  the state; a read outside a buffer (a table whose size wrapped) is undefined
  behaviour.  The lemmas prove the count and the PASS criterion, and that on
  every well-formed table whose size did not wrap the printed text is exactly
  \<open>table_report\<close>, the rendering of the table's row view (\<open>expected_row\<close>,
  \<open>checks\<close>) in the format of spec section 6.
\<close>

definition nl :: string where
  "nl = [CHR 0x0A]"

fun fmt_nat :: "nat \<Rightarrow> string" where
  "fmt_nat n =
     (if n < 10 then [char_of (48 + n)] else fmt_nat (n div 10) @ [char_of (48 + n mod 10)])"

definition fmt_u :: "u32 \<Rightarrow> string" where
  "fmt_u x = fmt_nat (unat x)"

definition pad_left :: "nat \<Rightarrow> string \<Rightarrow> string" where
  "pad_left w s = replicate (w - length s) (CHR '' '') @ s"

function count_checks :: "mcdc_table_t \<Rightarrow> u32 \<Rightarrow> u32 \<Rightarrow> u32 c_result" where
  "count_checks this row checks_passed =
     (if row < rows this then
        sbind (buf_load (checks this) (unat row)) (\<lambda>b.
          count_checks this (row + 1) (if b = True then checks_passed + 1 else checks_passed))
      else Inr checks_passed)"
  by pat_completeness auto
termination
  by (relation "measure (\<lambda>(this, row, n). unat (rows this) - unat row)")
     (auto simp: unat_Suc_less word_less_nat_alt)

function print_cells :: "mcdc_table_t \<Rightarrow> u32 \<Rightarrow> u32 \<Rightarrow> string c_result" where
  "print_cells this row col =
     (if col < cols this then
        sbind (buf_load (table this) (unat (row * cols this + col))) (\<lambda>b.
          sbind (print_cells this row (col + 1)) (\<lambda>rest.
            Inr ((if b then ''T'' else ''F'') @ '' '' @ rest)))
      else Inr [])"
  by pat_completeness auto
termination
  by (relation "measure (\<lambda>(this, row, col). unat (cols this) - unat col)")
     (auto simp: unat_Suc_less word_less_nat_alt)

function print_rows :: "mcdc_table_t \<Rightarrow> u32 \<Rightarrow> string c_result" where
  "print_rows this row =
     (if row < rows this then
        sbind (print_cells this row 0) (\<lambda>cells.
          sbind (buf_load (checks this) (unat row)) (\<lambda>b.
            sbind (print_rows this (row + 1)) (\<lambda>rest.
              Inr ('' Test No. '' @ fmt_u (1 + row) @ '' | '' @ cells @
                   ''| '' @ (if b then ''Checked'' else ''Unchecked'') @ nl @ rest))))
      else Inr [])"
  by pat_completeness auto
termination
  by (relation "measure (\<lambda>(this, row). unat (rows this) - unat row)")
     (auto simp: unat_Suc_less word_less_nat_alt)

definition banner :: string where
  "banner = replicate 52 (CHR ''='')"

definition dashes :: string where
  "dashes = concat (replicate 25 ''- '') @ ''-''"

definition print_header :: "u32 \<Rightarrow> u32 \<Rightarrow> bool \<Rightarrow> string \<Rightarrow> string" where
  "print_header checks_passed n_rows all_passed t_name =
     banner @ nl @ '' MC/DC '' @ fmt_u checks_passed @ '' x '' @ fmt_u n_rows @ '' '' @
     pad_left 39 (if all_passed then ''PASS'' else ''FAIL'') @ nl @ dashes @ nl @
     '' '' @ t_name @ nl @ banner @ nl"

definition report_table :: "mcdc_table_t \<Rightarrow> string c_result" where
  "report_table this =
     sbind (count_checks this 0 0) (\<lambda>checks_passed.
       let all_passed = (checks_passed = rows this) in
       sbind (print_rows this 0) (\<lambda>body.
         Inr (print_header checks_passed (rows this) all_passed (name this) @ body)))"

function report_loop :: "mcdc_context_t \<Rightarrow> u32 \<Rightarrow> string c_result" where
  "report_loop ctx at_table =
     (if at_table < ctx_len ctx then
        (case ctx_list ctx of
           None \<Rightarrow> Inl Null_deref
         | Some xs \<Rightarrow>
             sbind (buf_load xs (unat at_table)) (\<lambda>this.
               sbind (report_table this) (\<lambda>out.
                 sbind (report_loop ctx (at_table + 1)) (\<lambda>rest. Inr (out @ rest)))))
      else Inr [])"
  by pat_completeness auto
termination
  by (relation "measure (\<lambda>(ctx, at_table). unat (ctx_len ctx) - unat at_table)")
     (auto simp: unat_Suc_less word_less_nat_alt)

definition mcdc_check_mcdc :: "mcdc_state \<Rightarrow> string c_result" where
  "mcdc_check_mcdc st = report_loop (m_mcdc_context st) 0"

text \<open>The report of one table rendered from its row view: the header, then one
  line per expected row with its cells and its observed flag.\<close>

definition row_line :: "nat \<Rightarrow> bool list \<Rightarrow> bool \<Rightarrow> string" where
  "row_line i r b =
     '' Test No. '' @ fmt_nat (Suc i) @ '' | '' @ concat (map (\<lambda>x. (if x then ''T'' else ''F'') @ '' '') r) @
     ''| '' @ (if b then ''Checked'' else ''Unchecked'') @ nl"

definition table_report :: "mcdc_table_t \<Rightarrow> string" where
  "table_report t =
     (let n = count_list (checks t) True in
      print_header (of_nat n) (rows t) (of_nat n = rows t) (name t) @
      concat (map (\<lambda>i. row_line i (expected_row t i) (checks t ! i)) [0..<unat (rows t)]))"

text \<open>Printed text as a list of lines, each ended by \<open>\\n\<close>.\<close>

definition text_lines :: "string list \<Rightarrow> string" where
  "text_lines ls = concat (map (\<lambda>l. l @ nl) ls)"

declare count_checks.simps [simp del] print_cells.simps [simp del] print_rows.simps [simp del]
  report_loop.simps [simp del]

lemma count_list_eq_length: "count_list xs x = length xs \<longleftrightarrow> (\<forall>y\<in>set xs. y = x)"
proof (induction xs)
  case Nil
  show ?case by simp
next
  case (Cons y ys)
  have "count_list ys x \<le> length ys" by (rule count_le_length)
  with Cons.IH show ?case by auto
qed

lemma count_checks_from:
  assumes "length (checks t) = unat (rows t)"
  shows "count_checks t row acc = Inr (acc + of_nat (count_list (drop (unat row) (checks t)) True))"
  using assms
proof (induction t row acc rule: count_checks.induct)
  case (1 t row acc)
  show ?case
  proof (cases "row < rows t")
    case True
    then have lt: "unat row < length (checks t)" using "1.prems" by (simp add: word_less_nat_alt)
    have suc: "unat (row + 1) = Suc (unat row)" using True by (rule unat_Suc_less)
    have drop: "drop (unat row) (checks t) = checks t ! unat row # drop (Suc (unat row)) (checks t)"
      using lt by (simp add: Cons_nth_drop_Suc)
    show ?thesis
      using "1.IH" [OF True "1.prems"] True lt suc drop
      by (simp add: count_checks.simps [of t row acc] buf_load_def)
  next
    case False
    then have "length (checks t) \<le> unat row" using "1.prems" by (simp add: word_less_nat_alt)
    with False show ?thesis by (simp add: count_checks.simps [of t row acc])
  qed
qed


lemma cell_index:
  assumes "dims_fit t" and "row < rows t" and "col < cols t"
  shows "unat (row * cols t + col) = unat row * unat (cols t) + unat col"
    and "unat row * unat (cols t) + unat col < unat (rows t) * unat (cols t)"
proof -
  have off: "unat (row * cols t) = unat row * unat (cols t)"
    using assms(1,2) unfolding dims_fit_def by (rule unat_row_offset)
  from assms(2) have "unat row < unat (rows t)" by (simp add: word_less_nat_alt)
  then have "unat row * unat (cols t) + unat (cols t) \<le> unat (rows t) * unat (cols t)"
    by (rule row_offset_bound)
  moreover from assms(3) have "unat col < unat (cols t)" by (simp add: word_less_nat_alt)
  ultimately show lt: "unat row * unat (cols t) + unat col < unat (rows t) * unat (cols t)"
    by linarith
  with assms(1) off have "unat (row * cols t) + unat col < 2 ^ LENGTH(32)"
    by (simp add: dims_fit_def)
  with off show "unat (row * cols t + col) = unat row * unat (cols t) + unat col"
    by (simp add: unat_add_lem [THEN iffD1])
qed

lemma expected_row_nth:
  assumes "table_wf t" and "dims_fit t" and "i < unat (rows t)" and "k < unat (cols t)"
  shows "expected_row t i ! k = table t ! (i * unat (cols t) + k)"
proof -
  have "i * unat (cols t) + unat (cols t) \<le> length (table t)"
    using assms(3) table_wf_length [OF assms(1,2)] by (simp add: row_offset_bound)
  with assms(4) show ?thesis by (simp add: expected_row_def buf_slice_def)
qed

lemma print_cells_eq:
  assumes "table_wf t" and "dims_fit t" and "row < rows t"
  shows "print_cells t row col =
     Inr (concat (map (\<lambda>x. (if x then ''T'' else ''F'') @ '' '')
                     (drop (unat col) (expected_row t (unat row)))))"
  using assms
proof (induction t row col rule: print_cells.induct)
  case (1 t row col)
  have r: "unat row < unat (rows t)" using "1.prems"(3) by (simp add: word_less_nat_alt)
  note len = length_expected_row [OF "1.prems"(1,2) r]
  show ?case
  proof (cases "col < cols t")
    case True
    note idx = cell_index [OF "1.prems"(2,3) True]
    have c: "unat col < unat (cols t)" using True by (simp add: word_less_nat_alt)
    have "unat (row * cols t + col) < length (table t)"
      using idx table_wf_length [OF "1.prems"(1,2)] by simp
    moreover have "drop (unat col) (expected_row t (unat row)) =
        table t ! unat (row * cols t + col) # drop (Suc (unat col)) (expected_row t (unat row))"
      using Cons_nth_drop_Suc [of "unat col" "expected_row t (unat row)"] len c idx(1)
        expected_row_nth [OF "1.prems"(1,2) r c] by simp
    moreover have "unat (col + 1) = Suc (unat col)" using True by (rule unat_Suc_less)
    ultimately show ?thesis
      using "1.IH" [OF True "1.prems"] True
      by (simp add: print_cells.simps [of t row col] buf_load_def)
  next
    case False
    then have "length (expected_row t (unat row)) \<le> unat col"
      using len by (simp add: word_less_nat_alt)
    with False show ?thesis by (simp add: print_cells.simps [of t row col])
  qed
qed

lemma print_rows_eq:
  assumes "table_wf t" and "dims_fit t"
  shows "print_rows t row =
     Inr (concat (map (\<lambda>i. row_line i (expected_row t i) (checks t ! i)) [unat row..<unat (rows t)]))"
  using assms
proof (induction t row rule: print_rows.induct)
  case (1 t row)
  show ?case
  proof (cases "row < rows t")
    case True
    have r: "unat row < unat (rows t)" using True by (simp add: word_less_nat_alt)
    have cells: "print_cells t row 0 =
        Inr (concat (map (\<lambda>x. (if x then ''T'' else ''F'') @ '' '') (expected_row t (unat row))))"
      using print_cells_eq [OF "1.prems" True, of 0] by simp
    from r "1.prems"(1) have "unat row < length (checks t)" by (simp add: table_wf_def)
    moreover have "unat (row + 1) = Suc (unat row)" and "unat (1 + row) = Suc (unat row)"
      using unat_Suc_less [OF True] by (simp_all add: add.commute)
    moreover have "[unat row..<unat (rows t)] = unat row # [Suc (unat row)..<unat (rows t)]"
      using r by (simp add: upt_conv_Cons)
    ultimately show ?thesis
      using "1.IH" [OF True "1.prems"] cells True
      by (simp add: print_rows.simps [of t row] buf_load_def row_line_def fmt_u_def)
  next
    case False
    then show ?thesis by (simp add: print_rows.simps [of t row] word_less_nat_alt)
  qed
qed

lemma report_table_eq:
  assumes "table_wf t" and "dims_fit t"
  shows "report_table t = Inr (table_report t)"
proof -
  from assms(1) have "length (checks t) = unat (rows t)" by (simp add: table_wf_def)
  then have "count_checks t 0 0 = Inr (of_nat (count_list (checks t) True))"
    using count_checks_from [of t 0 0] by simp
  with print_rows_eq [OF assms, of 0] show ?thesis
    by (simp add: report_table_def table_report_def Let_def)
qed

lemma report_loop_eq:
  assumes "ctx_inv ctx"
    and "list_all dims_fit (case ctx_list ctx of None \<Rightarrow> [] | Some xs \<Rightarrow> xs)"
  shows "report_loop ctx at_table =
     Inr (concat (map table_report (drop (unat at_table) (case ctx_list ctx of None \<Rightarrow> [] | Some xs \<Rightarrow> xs))))"
  using assms
proof (induction ctx at_table rule: report_loop.induct)
  case (1 ctx at_table)
  show ?case
  proof (cases "at_table < ctx_len ctx")
    case True
    then have "ctx_len ctx \<noteq> 0" by auto
    with "1.prems"(1) obtain xs where xs: "ctx_list ctx = Some xs"
      and len: "unat (ctx_len ctx) = length xs" and wf: "list_all table_wf xs"
      by (auto simp: ctx_inv_def split: option.splits)
    from True len have k: "unat at_table < length xs" by (simp add: word_less_nat_alt)
    have out: "report_table (xs ! unat at_table) = Inr (table_report (xs ! unat at_table))"
      using wf "1.prems"(2) xs k by (intro report_table_eq) (simp_all add: list_all_length)
    have "unat (at_table + 1) = Suc (unat at_table)" using True by (rule unat_Suc_less)
    moreover have "drop (unat at_table) xs = xs ! unat at_table # drop (Suc (unat at_table)) xs"
      using k by (rule Cons_nth_drop_Suc [symmetric])
    ultimately show ?thesis
      using "1.IH" [OF True xs "1.prems"] True xs k out
      by (simp add: report_loop.simps [of ctx at_table] buf_load_def)
  next
    case False
    with "1.prems"(1) have "length (case ctx_list ctx of None \<Rightarrow> [] | Some xs \<Rightarrow> xs) \<le> unat at_table"
      by (auto simp: ctx_inv_def word_less_nat_alt split: option.splits)
    with False show ?thesis by (simp add: report_loop.simps [of ctx at_table])
  qed
qed

lemma pass_iff_all_checked:
  assumes "table_wf t"
  shows "of_nat (count_list (checks t) True) = rows t \<longleftrightarrow> (\<forall>i < unat (rows t). checks t ! i)"
proof -
  from assms have len: "length (checks t) = unat (rows t)" by (simp add: table_wf_def)
  have cnt: "count_list (checks t) True \<le> unat (rows t)"
    using count_le_length [of "checks t" True] len by simp
  have "unat (rows t) < 2 ^ 32" using unsigned_less [of "rows t", where ?'a = nat] by simp
  with cnt have small: "count_list (checks t) True < 2 ^ LENGTH(32)" by simp
  have "(of_nat (count_list (checks t) True) = rows t) \<longleftrightarrow>
        count_list (checks t) True = unat (rows t)"
    using small by (auto simp: unat_of_nat word_unat_eq_iff)
  also have "\<dots> \<longleftrightarrow> (\<forall>i < unat (rows t). checks t ! i)"
    using count_list_eq_length [of "checks t" True] len by (auto simp: all_set_conv_all_nth)
  finally show ?thesis .
qed

subsection \<open>Properties of the report\<close>

text \<open>C14 (coverage verdict, spec 4.3): on a well-formed table the counting loop
  returns the number of set observed flags, and the table is reported PASS
  exactly when every row's flag is set.\<close>

theorem checks_passed_counts_observed_rows:
  assumes "table_wf t"
  shows "count_checks t 0 0 = Inr (of_nat (count_list (checks t) True)) \<and>
         (of_nat (count_list (checks t) True) = rows t \<longleftrightarrow> (\<forall>i < unat (rows t). checks t ! i))"
  using count_checks_from [of t 0 0] pass_iff_all_checked [OF assms] assms
  by (simp add: table_wf_def)

text \<open>C23 (the report renders the row view, spec 4.3 and 6): on a well-formed
  context in which no table's size wrapped, \<open>mcdc_check_mcdc\<close> prints, for
  each table in allocation order, its header with \<open>checks_passed\<close>, \<open>rows\<close> and
  PASS or FAIL, then for every expected row \<open>i\<close> the line \<open>Test No. i+1\<close> with
  the row's conditions as T/F and Checked or Unchecked as its observed flag;
  nothing else is printed.\<close>

theorem report_renders_row_view:
  assumes "ctx_inv (m_mcdc_context st)" and "list_all dims_fit (registry st)"
  shows "mcdc_check_mcdc st = Inr (concat (map table_report (registry st)))"
  using report_loop_eq [OF assms(1), of 0] assms(2)
  by (simp add: mcdc_check_mcdc_def registry_def)

end
