(* ===== verification/MCDC_Session.thy ===== *)
theory MCDC_Session
  imports MCDC_Machine MCDC_Report
begin

text \<open>
  A coverage session as the test driver of spec section 6 runs it against the
  library: one \<open>mcdc_alloc_table\<close>, one \<open>mcdc_register_row\<close> per expected row,
  then any number of \<open>mcdc_check_row\<close> calls from the instrumented code.  The
  abstract contract of spec sections 3 and 4.2 is stated on lists: the table's
  expected rows are the registered vectors (\<open>register_tables\<close> is the effect of
  a sequence of registrations on one table), and the observed flag of row \<open>i\<close>
  is set exactly when some observation had row \<open>i\<close> as its first exact match
  (\<open>session_flags\<close>).  The lemmas show that runs of the C operations implement
  this contract: a sequence of registrations fills the rows in order, a
  sequence of checks marks the first matches, and a whole session leaves the
  earlier tables alone and is reported PASS exactly when every expected row was
  the first match of some observation.  Checking each row of a table whose rows
  are distinct reaches PASS; a row that repeats an earlier one is never
  checked.  Only the set of observations matters, not their order.  Runs of
  allocations count tables in \<open>unsigned int\<close>, which wraps after
  \<open>2^32 - 1\<close> tables; a table whose size \<open>rows * cols\<close> wraps can never be
  registered without undefined behaviour; after a failed allocation the next
  registration overwrites row 0 of the previous table; and an all-false
  observation marks the first row of a table that was not registered.
\<close>

fun register_tables :: "mcdc_table_t \<Rightarrow> nat \<Rightarrow> bool list list \<Rightarrow> mcdc_table_t" where
  "register_tables t k [] = t"
| "register_tables t k (v # vs) = register_tables (register_table t k v) (Suc k) vs"

definition check_tables :: "mcdc_table_t \<Rightarrow> bool list list \<Rightarrow> mcdc_table_t" where
  "check_tables t ws = fold (\<lambda>w t. check_table t w) ws t"

definition session_flags :: "bool list list \<Rightarrow> nat \<Rightarrow> bool list list \<Rightarrow> bool list" where
  "session_flags vs c ws =
     map (\<lambda>i. list_ex (\<lambda>w. first_match vs (take c w) = Some i) ws) [0..<length vs]"

subsection \<open>Effects of the table-level operations\<close>

lemma register_table_fields [simp]:
  "rows (register_table t k v) = rows t" "cols (register_table t k v) = cols t"
  "checks (register_table t k v) = checks t" "name (register_table t k v) = name t"
  by (simp_all add: register_table_def Let_def)

lemma table_wf_register_table:
  assumes "table_wf t" and "dims_fit t" and "k < unat (rows t)" and "unat (cols t) \<le> length v"
  shows "table_wf (register_table t k v)"
  using length_buf_copy [OF buf_copy_register_table [OF assms]] assms(1)
  by (simp add: table_wf_def)

lemma dims_fit_register_table [simp]: "dims_fit (register_table t k v) = dims_fit t"
  by (simp add: dims_fit_def)

lemma check_table_fields [simp]:
  "rows (check_table t w) = rows t" "cols (check_table t w) = cols t"
  "table (check_table t w) = table t" "name (check_table t w) = name t"
  by (simp_all add: check_table_def)

lemma expected_rows_check_table [simp]: "expected_rows (check_table t w) = expected_rows t"
  by (simp add: expected_rows_def expected_row_def)

lemma dims_fit_check_table [simp]: "dims_fit (check_table t w) = dims_fit t"
  by (simp add: dims_fit_def)

lemma set_registry_set_registry [simp]: "set_registry (set_registry st xs) ys = set_registry st ys"
  by (simp add: set_registry_def)

lemma ctx_len_set_registry [simp]:
  "ctx_len (m_mcdc_context (set_registry st xs)) = ctx_len (m_mcdc_context st)"
  by (simp add: set_registry_def)

lemma ctx_inv_wf: "ctx_inv (m_mcdc_context st) \<Longrightarrow> list_all table_wf (registry st)"
  by (auto simp: ctx_inv_def registry_def split: option.splits)

lemma count_list_replicate_same [simp]: "count_list (replicate n x) x = n"
  by (induction n) auto

lemma first_match_distinct:
  "distinct xs \<Longrightarrow> i < length xs \<Longrightarrow> first_match xs (xs ! i) = Some i"
  by (auto simp: first_match_Some_iff nth_eq_iff_index_eq)

lemma first_match_not_duplicate:
  "i < j \<Longrightarrow> j < length xs \<Longrightarrow> xs ! i = xs ! j \<Longrightarrow> first_match xs v \<noteq> Some j"
  by (auto simp: first_match_Some_iff)

lemma mcdc_run_append: "mcdc_run (xs @ ys) st = sbind (mcdc_run xs st) (mcdc_run ys)"
  by (induction xs arbitrary: st) (auto simp: sbind_def split: sum.split)

lemma nth_mark_first:
  assumes "length cs = length rs" and "i < length cs"
  shows "mark_first rs v cs ! i = (cs ! i \<or> first_match rs v = Some i)"
proof (cases "first_match rs v")
  case None
  then show ?thesis by (simp add: mark_first_def)
next
  case (Some j)
  then have "j < length cs" using assms(1) by (simp add: first_match_Some_iff)
  with Some assms(2) show ?thesis by (auto simp: mark_first_def nth_list_update)
qed

lemma expected_row_register_tables:
  assumes "table_wf t" and "dims_fit t" and "k + length vs \<le> unat (rows t)"
    and "list_all (\<lambda>v. unat (cols t) \<le> length v) vs" and "j < unat (rows t)"
  shows "expected_row (register_tables t k vs) j =
           (if k \<le> j \<and> j < k + length vs then take (unat (cols t)) (vs ! (j - k))
            else expected_row t j)"
  using assms
proof (induction vs arbitrary: t k)
  case Nil
  then show ?case by auto
next
  case (Cons v vs)
  have k: "k < unat (rows t)" and long: "unat (cols t) \<le> length v"
    using Cons.prems(3,4) by auto
  note step = expected_row_register_table [OF Cons.prems(1,2) k long Cons.prems(5)]
  have "expected_row (register_tables (register_table t k v) (Suc k) vs) j =
          (if Suc k \<le> j \<and> j < Suc k + length vs then take (unat (cols t)) (vs ! (j - Suc k))
           else expected_row (register_table t k v) j)"
    using Cons.IH [OF table_wf_register_table [OF Cons.prems(1,2) k long]] Cons.prems(2-5)
    by simp
  with step show ?case
    by (auto simp: nth_Cons' not_less_eq_eq)
qed

lemma checks_check_table [simp]:
  "checks (check_table t w) = mark_first (expected_rows t) (take (unat (cols t)) w) (checks t)"
  by (simp add: check_table_def)

lemma length_mark_first [simp]: "length (mark_first rs v cs) = length cs"
  by (simp add: mark_first_def split: option.split)

lemma checks_check_tables:
  assumes "length (checks t) = length (expected_rows t)"
  shows "checks (check_tables t ws) =
     map (\<lambda>i. checks t ! i \<or>
                 list_ex (\<lambda>w. first_match (expected_rows t) (take (unat (cols t)) w) = Some i) ws)
       [0..<length (checks t)]"
  using assms
proof (induction ws arbitrary: t)
  case Nil
  show ?case by (simp add: check_tables_def map_nth)
next
  case (Cons w ws)
  let ?t = "check_table t w"
  let ?m = "\<lambda>ws i. list_ex (\<lambda>w. first_match (expected_rows t) (take (unat (cols t)) w) = Some i) ws"
  have "check_tables t (w # ws) = check_tables ?t ws" by (simp add: check_tables_def)
  also have "checks \<dots> = map (\<lambda>i. checks ?t ! i \<or> ?m ws i) [0..<length (checks t)]"
    using Cons.IH [of ?t] Cons.prems by simp
  also have "\<dots> = map (\<lambda>i. checks t ! i \<or> ?m (w # ws) i) [0..<length (checks t)]"
    using Cons.prems by (intro map_cong) (auto simp: nth_mark_first)
  finally show ?case .
qed

lemma set_registry_nrows [simp]:
  "set_registry (st\<lparr>m_nrows := n\<rparr>) xs = (set_registry st xs)\<lparr>m_nrows := n\<rparr>"
  by (simp add: set_registry_def)

lemma mcdc_run_registers:
  assumes "ctx_inv (m_mcdc_context st)" and "registry st \<noteq> []"
    and "dims_fit (last (registry st))"
    and "unat (m_nrows st) + length vs \<le> unat (rows (last (registry st)))"
    and "list_all (\<lambda>v. unat (cols (last (registry st))) \<le> length v) vs"
  shows "mcdc_run (map Register_row vs) st =
     Inr ((set_registry st (butlast (registry st) @
             [register_tables (last (registry st)) (unat (m_nrows st)) vs]))
          \<lparr>m_nrows := m_nrows st + of_nat (length vs)\<rparr>)"
  using assms
proof (induction vs arbitrary: st)
  case Nil
  then show ?case by (simp add: set_registry_same)
next
  case (Cons v vs)
  let ?t = "last (registry st)" and ?m = "m_nrows st"
  let ?t1 = "register_table ?t (unat ?m) v"
  have cur: "?m < rows ?t" using Cons.prems(4) by (simp add: word_less_nat_alt)
  have long: "unat (cols ?t) \<le> length v" using Cons.prems(5) by simp
  note step = mcdc_register_row_eq [OF Cons.prems(1-3) cur long]
  let ?st1 = "(set_registry st (butlast (registry st) @ [?t1]))\<lparr>m_nrows := ?m + 1\<rparr>"
  have inv1: "ctx_inv (m_mcdc_context ?st1)" by (rule mcdc_register_row_inv [OF Cons.prems(1) step])
  have suc: "unat (?m + 1) = Suc (unat ?m)" using cur by (rule unat_Suc_less)
  have run1: "mcdc_run (map Register_row vs) ?st1 =
     Inr ((set_registry ?st1 (butlast (registry st) @ [register_tables ?t1 (Suc (unat ?m)) vs]))
          \<lparr>m_nrows := ?m + 1 + of_nat (length vs)\<rparr>)"
    using Cons.IH [OF inv1] Cons.prems(3-5) suc by simp
  show ?case
    using step run1 by (simp add: add.assoc add.commute)
qed

lemma mcdc_run_checks:
  assumes "ctx_inv (m_mcdc_context st)" and "unat k < length (registry st)"
    and "dims_fit (registry st ! unat k)"
    and "list_all (\<lambda>w. unat (cols (registry st ! unat k)) \<le> length w) ws"
  shows "mcdc_run (map (Check_row k) ws) st =
     Inr (set_registry st ((registry st)[unat k := check_tables (registry st ! unat k) ws]))"
  using assms
proof (induction ws arbitrary: st)
  case Nil
  then have "registry st \<noteq> []" by auto
  with Nil show ?case by (simp add: check_tables_def set_registry_same)
next
  case (Cons w ws)
  let ?t = "registry st ! unat k"
  have long: "unat (cols ?t) \<le> length w" using Cons.prems(4) by simp
  note step = mcdc_check_row_eq [OF Cons.prems(1-3) long]
  let ?st1 = "set_registry st ((registry st)[unat k := check_table ?t w])"
  have inv1: "ctx_inv (m_mcdc_context ?st1)" by (rule mcdc_check_row_inv [OF Cons.prems(1) step])
  have "check_tables ?t (w # ws) = check_tables (check_table ?t w) ws"
    by (simp add: check_tables_def)
  with Cons.IH [OF inv1] Cons.prems(2-4) step show ?case by simp
qed

lemma register_tables_fields [simp]:
  "rows (register_tables t k vs) = rows t" "cols (register_tables t k vs) = cols t"
  "checks (register_tables t k vs) = checks t" "name (register_tables t k vs) = name t"
  by (induction vs arbitrary: t k) simp_all

lemma dims_fit_register_tables [simp]: "dims_fit (register_tables t k vs) = dims_fit t"
  by (simp add: dims_fit_def)

lemma check_tables_fields [simp]:
  "rows (check_tables t ws) = rows t" "cols (check_tables t ws) = cols t"
  "name (check_tables t ws) = name t" "expected_rows (check_tables t ws) = expected_rows t"
  unfolding check_tables_def by (induction ws arbitrary: t) simp_all

lemma table_wf_check_table [simp]: "table_wf (check_table t w) = table_wf t"
  by (simp add: table_wf_def)

lemma check_tables_Nil [simp]: "check_tables t [] = t"
  by (simp add: check_tables_def)

lemma check_tables_Cons [simp]: "check_tables t (w # ws) = check_tables (check_table t w) ws"
  by (simp add: check_tables_def)

lemma check_tables_snoc [simp]: "check_tables t (ws @ [w]) = check_table (check_tables t ws) w"
  by (simp add: check_tables_def)

lemma table_wf_check_tables [simp]: "table_wf (check_tables t ws) = table_wf t"
  by (induction ws arbitrary: t) simp_all

lemma dims_fit_check_tables [simp]: "dims_fit (check_tables t ws) = dims_fit t"
  by (simp add: dims_fit_def)

lemma ctx_inv_set_registry:
  assumes "ctx_inv (m_mcdc_context st)" and "length xs = length (registry st)" and "xs \<noteq> []"
    and "list_all table_wf xs"
  shows "ctx_inv (m_mcdc_context (set_registry st xs))"
  using assms by (auto simp: ctx_inv_def set_registry_def registry_def split: option.splits)

lemma mcdc_run_inv:
  "mcdc_run cs st = Inr st' \<Longrightarrow> ctx_inv (m_mcdc_context st) \<Longrightarrow> ctx_inv (m_mcdc_context st')"
  by (induction cs arbitrary: st) (auto simp: sbind_eq_Inr intro: mcdc_call_step_inv)

text \<open>Registering \<open>rows\<close> vectors of length \<open>cols\<close> into a fresh table makes them
  its expected rows.\<close>

lemma expected_rows_register_all:
  assumes "unat r * unat c < 2 ^ 32" and "length vs = unat r"
    and "list_all (\<lambda>v. length v = unat c) vs"
  shows "expected_rows (register_tables (new_table r c nm) 0 vs) = vs"
proof -
  let ?t = "new_table r c nm"
  have wf: "table_wf ?t" and fit: "dims_fit ?t"
    using assms(1) by (simp_all add: new_table_def table_wf_def dims_fit_def)
  have long: "list_all (\<lambda>v. unat (cols ?t) \<le> length v) vs"
    using assms(3) by (simp add: new_table_def list_all_iff)
  have "\<forall>j < unat r. expected_row (register_tables ?t 0 vs) j = vs ! j"
    using expected_row_register_tables [OF wf fit _ long] assms(2,3)
    by (simp add: new_table_def list_all_iff)
  with assms(2) show ?thesis
    by (simp add: expected_rows_def new_table_def list_eq_iff_nth_eq)
qed

lemma mcdc_run_session:
  assumes inv: "ctx_inv (m_mcdc_context st)" and k: "ctx_len (m_mcdc_context st) = k"
    and nf: "k \<noteq> - 1" and fit: "unat r * unat c < 2 ^ 32" and nrows: "length vs \<le> unat r"
    and vlen: "list_all (\<lambda>v. length v = unat c) vs"
    and wlen: "list_all (\<lambda>w. unat c \<le> length w) ws"
  shows "\<exists>st'. mcdc_run (Alloc_table all_ok r c nm # map Register_row vs @ map (Check_row k) ws) st =
           Inr st' \<and>
           registry st' = registry st @ [check_tables (register_tables (new_table r c nm) 0 vs) ws]"
proof -
  let ?nt = "new_table r c nm"
  let ?t2 = "register_tables ?nt 0 vs"
  let ?st1 = "st\<lparr>m_mcdc_context := \<lparr>ctx_list = Some (registry st @ [?nt]), ctx_len = k + 1\<rparr>,
                 m_nrows := 0, m_rows := r, m_cols := c,
                 heap_blocks := heap_blocks st + (if registry st = [] then 3 else 2),
                 faults := faults st @ (if registry st = [] then [] else [Write_oob])\<rparr>"
  have a: "mcdc_call_step (Alloc_table all_ok r c nm) st = Inr ?st1"
    using mcdc_alloc_table_ok [where ok = all_ok and n_rows = r and n_cols = c and t_name = nm,
                               OF _ _ _ inv] nf k
    by (simp add: all_ok_def)
  have inv1: "ctx_inv (m_mcdc_context ?st1)" using mcdc_call_step_inv [OF inv a] .
  have reg1: "registry ?st1 = registry st @ [?nt]" by (simp add: registry_def)
  have fit1: "dims_fit ?nt" using fit by (simp add: new_table_def dims_fit_def)
  have long1: "list_all (\<lambda>v. unat (cols ?nt) \<le> length v) vs"
    using vlen by (simp add: new_table_def list_all_iff)
  let ?st2 = "(set_registry ?st1 (registry st @ [?t2]))\<lparr>m_nrows := of_nat (length vs)\<rparr>"
  have b: "mcdc_run (map Register_row vs) ?st1 = Inr ?st2"
    using mcdc_run_registers [OF inv1] reg1 fit1 long1 nrows by (simp add: new_table_def)
  have inv2: "ctx_inv (m_mcdc_context ?st2)" using mcdc_run_inv [OF b inv1] .
  have kk: "unat k = length (registry st)"
    using inv k by (auto simp: ctx_inv_def registry_def split: option.splits)
  have reg2: "registry ?st2 = registry st @ [?t2]" by simp
  have long2: "list_all (\<lambda>w. unat (cols ?t2) \<le> length w) ws"
    using wlen by (simp add: new_table_def)
  have c: "mcdc_run (map (Check_row k) ws) ?st2 =
           Inr (set_registry ?st2 (registry st @ [check_tables ?t2 ws]))"
    using mcdc_run_checks [OF inv2, of k ws] reg2 kk fit1 long2 by simp
  show ?thesis
    using a b c by (simp add: mcdc_run_append)
qed

lemma session_table:
  fixes nm :: string and ws :: "bool list list"
  assumes fit: "unat r * unat c < 2 ^ 32" and nrows: "length vs = unat r"
    and vlen: "list_all (\<lambda>v. length v = unat c) vs"
  defines "t \<equiv> check_tables (register_tables (new_table r c nm) 0 vs) ws"
  shows "name t = nm \<and> rows t = r \<and> cols t = c \<and> expected_rows t = vs \<and>
         checks t = session_flags vs (unat c) ws"
proof -
  let ?t2 = "register_tables (new_table r c nm) 0 vs"
  have rows2: "expected_rows ?t2 = vs" by (rule expected_rows_register_all [OF fit nrows vlen])
  have len: "length (checks ?t2) = length (expected_rows ?t2)"
    using rows2 nrows by (simp add: new_table_def)
  have "checks t = map (\<lambda>i. list_ex (\<lambda>w. first_match vs (take (unat c) w) = Some i) ws)
                     [0..<length vs]"
    unfolding t_def checks_check_tables [OF len] using rows2 nrows
    by (intro map_cong) (simp_all add: new_table_def)
  then show ?thesis
    using rows2 by (simp add: t_def new_table_def session_flags_def)
qed

lemma mcdc_run_allocs:
  assumes "n < 2 ^ 32"
  shows "\<exists>st. mcdc_run (replicate n (Alloc_table all_ok r c nm)) mcdc_init = Inr st \<and>
              ctx_inv (m_mcdc_context st) \<and> ctx_len (m_mcdc_context st) = of_nat n"
  using assms
proof (induction n)
  case 0
  show ?case using mcdc_init_inv by (simp add: mcdc_init_def)
next
  case (Suc n)
  then obtain st where run: "mcdc_run (replicate n (Alloc_table all_ok r c nm)) mcdc_init = Inr st"
    and inv: "ctx_inv (m_mcdc_context st)" and len: "ctx_len (m_mcdc_context st) = of_nat n"
    by auto
  have nf: "ctx_len (m_mcdc_context st) \<noteq> - 1"
    using of_nat_ne_minus_one [OF Suc.prems] len by simp
  obtain st1 where a: "mcdc_alloc_table all_ok r c nm st = Inr st1"
    and len1: "ctx_len (m_mcdc_context st1) = of_nat n + 1"
    using mcdc_alloc_table_ok [where ok = all_ok and n_rows = r and n_cols = c and t_name = nm,
                               OF _ _ _ inv nf] len
    by (simp add: all_ok_def)
  have "replicate (Suc n) (Alloc_table all_ok r c nm) =
        replicate n (Alloc_table all_ok r c nm) @ [Alloc_table all_ok r c nm]"
    by (simp add: replicate_append_same)
  with run a have "mcdc_run (replicate (Suc n) (Alloc_table all_ok r c nm)) mcdc_init = Inr st1"
    by (simp add: mcdc_run_append)
  with mcdc_alloc_table_inv [OF inv a] len1 show ?case by simp
qed

lemma check_tables_only_checks: "check_tables t ws = t\<lparr>checks := checks (check_tables t ws)\<rparr>"
proof (induction ws arbitrary: t)
  case Nil
  show ?case by simp
next
  case (Cons w ws)
  have "check_tables t (w # ws) = check_tables (check_table t w) ws" by simp
  also have "\<dots> = (check_table t w)\<lparr>checks := checks (check_tables (check_table t w) ws)\<rparr>"
    by (rule Cons.IH)
  finally show ?case by (simp add: check_table_def)
qed

lemma check_tables_set:
  assumes "length (checks t) = length (expected_rows t)" and "set ws = set ws'"
  shows "check_tables t ws = check_tables t ws'"
proof -
  have "checks (check_tables t ws) = checks (check_tables t ws')"
    using checks_check_tables [OF assms(1), of ws] checks_check_tables [OF assms(1), of ws'] assms(2)
    by (simp add: list_ex_iff)
  then show ?thesis by (metis check_tables_only_checks)
qed

lemma mcdc_register_row_step:
  assumes inv: "ctx_inv (m_mcdc_context st)" and ret: "mcdc_register_row conds st = Inr st'"
  obtains tb where "registry st \<noteq> []"
    and "buf_copy (table (last (registry st))) (unat (m_nrows st * cols (last (registry st))))
           conds (unat (cols (last (registry st)))) = Inr tb"
    and "registry st' = butlast (registry st) @ [(last (registry st))\<lparr>table := tb\<rparr>]"
    and "m_nrows st' = m_nrows st + 1"
proof -
  let ?k = "unat (ctx_len (m_mcdc_context st) - 1)"
  from ret obtain xs t tb where xs: "ctx_list (m_mcdc_context st) = Some xs"
    and t: "buf_load xs ?k = Inr t"
    and cp: "buf_copy (table t) (unat (m_nrows st * cols t)) conds (unat (cols t)) = Inr tb"
    and st': "registry st' = xs[?k := t\<lparr>table := tb\<rparr>]" "m_nrows st' = m_nrows st + 1"
    by (elim mcdc_register_row_InrE) (auto simp: registry_def)
  from inv xs have ne: "registry st \<noteq> []" and reg: "registry st = xs"
    by (auto simp: ctx_inv_def registry_def)
  from last_slot [OF inv ne] reg have k: "?k = length xs - 1" by simp
  from t k ne reg have "t = last (registry st)" by (simp add: buf_load_Inr last_conv_nth)
  with that ne cp st' k reg update_last [OF ne] show ?thesis by simp
qed

lemma mcdc_run_registers_overflow:
  assumes inv: "ctx_inv (m_mcdc_context st)" and ne: "registry st \<noteq> []"
    and c: "cols (last (registry st)) \<noteq> 0"
    and off: "unat (m_nrows st) * unat (cols (last (registry st))) \<le> length (table (last (registry st)))"
    and over: "length (table (last (registry st))) <
                 (unat (m_nrows st) + length vs) * unat (cols (last (registry st)))"
    and long: "list_all (\<lambda>v. unat (cols (last (registry st))) \<le> length v) vs"
  shows "\<exists>e. mcdc_run (map Register_row vs) st = Inl e"
  using assms
proof (induction vs arbitrary: st)
  case Nil
  then show ?case by simp
next
  case (Cons v vs)
  let ?t = "last (registry st)" and ?m = "m_nrows st"
  have wf: "table_wf ?t" using ctx_inv_wf [OF Cons.prems(1)] Cons.prems(2) by (simp add: list_all_iff)
  then have small: "length (table ?t) < 2 ^ 32" using unat_u32_bound by (simp add: table_wf_def)
  show ?case
  proof (cases "mcdc_register_row v st")
    case (Inl e)
    then show ?thesis by simp
  next
    case (Inr st1)
    then obtain tb where cp: "buf_copy (table ?t) (unat (?m * cols ?t)) v (unat (cols ?t)) = Inr tb"
      and reg1: "registry st1 = butlast (registry st) @ [?t\<lparr>table := tb\<rparr>]"
      and m1: "m_nrows st1 = ?m + 1"
      by (rule mcdc_register_row_step [OF Cons.prems(1)])
    have offw: "unat (?m * cols ?t) = unat ?m * unat (cols ?t)"
      using Cons.prems(4) small by (intro unat_mult_no_wrap) simp
    have fits: "unat ?m * unat (cols ?t) + unat (cols ?t) \<le> length (table ?t)" and ltb: "length tb = length (table ?t)"
      using cp offw by (auto simp: buf_copy_Inr)
    have "unat ?m + 1 < 2 ^ 32"
    proof -
      have "unat (cols ?t) \<ge> 1" using Cons.prems(3) by (simp add: unat_eq_zero Suc_le_eq unat_gt_0)
      then have "unat ?m + 1 \<le> unat ?m * unat (cols ?t) + unat (cols ?t)"
        by (metis add_le_mono le_add2 mult_le_mono2 nat_mult_1_right)
      with fits small show ?thesis by linarith
    qed
    then have um1: "unat (?m + 1) = unat ?m + 1" by (simp add: unat_add_lem [THEN iffD1])
    have ne1: "registry st1 \<noteq> []" using reg1 by simp
    have last1: "last (registry st1) = ?t\<lparr>table := tb\<rparr>" using reg1 by simp
    have "\<exists>e. mcdc_run (map Register_row vs) st1 = Inl e"
      using Cons.IH [OF mcdc_register_row_inv [OF Cons.prems(1) Inr] ne1] Cons.prems(3,5,6)
        fits ltb last1 m1 um1 by (simp add: algebra_simps)
    with Inr show ?thesis by simp
  qed
qed

lemma expected_row_new_table:
  "j < unat r \<Longrightarrow> unat r * unat c < 2 ^ 32 \<Longrightarrow>
   expected_row (new_table r c nm) j = replicate (unat c) False"
proof -
  assume j: "j < unat r" and fit: "unat r * unat c < 2 ^ 32"
  have "j * unat c + unat c \<le> unat r * unat c" using j by (rule row_offset_bound)
  with fit show ?thesis
    by (simp add: expected_row_def new_table_def buf_slice_def unat_mult_no_wrap min_def)
qed

subsection \<open>Properties of a coverage session\<close>

text \<open>C21 (a session implements the coverage contract, spec 3, 4.1, 4.2 and 8):
  starting from any well-formed context, allocating an \<open>r x c\<close> table whose size
  does not wrap, registering \<open>r\<close> vectors of length \<open>c\<close> and then checking any
  observations against the new table's index succeeds; it appends exactly one
  table and leaves the earlier ones unchanged; the new table has the given name
  and dimensions, its expected rows are the registered vectors in order, and its
  observed flag \<open>i\<close> is set exactly when some observation had row \<open>i\<close> as its
  first exact match.\<close>

theorem session_implements_contract:
  assumes "ctx_inv (m_mcdc_context st)" and "ctx_len (m_mcdc_context st) = k"
    and "k \<noteq> - 1" and "unat r * unat c < 2 ^ 32" and "length vs = unat r"
    and "list_all (\<lambda>v. length v = unat c) vs" and "list_all (\<lambda>w. unat c \<le> length w) ws"
  shows "\<exists>st' t'. mcdc_run (Alloc_table all_ok r c nm # map Register_row vs @
                             map (Check_row k) ws) st = Inr st' \<and>
           registry st' = registry st @ [t'] \<and> name t' = nm \<and> rows t' = r \<and> cols t' = c \<and>
           expected_rows t' = vs \<and> checks t' = session_flags vs (unat c) ws"
  using mcdc_run_session [OF assms(1-4) eq_imp_le [OF assms(5)] assms(6,7)]
    session_table [OF assms(4-6), of nm ws] by blast

text \<open>C22 (coverage verdict of a session, spec 8): after such a session the
  reporter's count for the new table equals \<open>rows\<close>, that is the table is
  reported PASS, exactly when every expected row was the first exact match of at
  least one observation.\<close>

theorem session_pass_iff_all_rows_matched:
  assumes "ctx_inv (m_mcdc_context st)" and "ctx_len (m_mcdc_context st) = k"
    and "k \<noteq> - 1" and "unat r * unat c < 2 ^ 32" and "length vs = unat r"
    and "list_all (\<lambda>v. length v = unat c) vs" and "list_all (\<lambda>w. unat c \<le> length w) ws"
  shows "\<exists>st' t'. mcdc_run (Alloc_table all_ok r c nm # map Register_row vs @
                             map (Check_row k) ws) st = Inr st' \<and>
           registry st' = registry st @ [t'] \<and>
           (count_checks t' 0 0 = Inr r \<longleftrightarrow>
              (\<forall>i < length vs. list_ex (\<lambda>w. first_match vs (take (unat c) w) = Some i) ws))"
proof -
  let ?t = "check_tables (register_tables (new_table r c nm) 0 vs) ws"
  obtain st' where run: "mcdc_run (Alloc_table all_ok r c nm # map Register_row vs @
                                   map (Check_row k) ws) st = Inr st'"
    and reg: "registry st' = registry st @ [?t]"
    using mcdc_run_session [OF assms(1-4) eq_imp_le [OF assms(5)] assms(6,7)] by blast
  have tab: "rows ?t = r" "checks ?t = session_flags vs (unat c) ws"
    using session_table [OF assms(4-6), of nm ws] by simp_all
  have "ctx_inv (m_mcdc_context st')" using mcdc_run_inv [OF run assms(1)] .
  with reg have wf: "table_wf ?t"
    by (auto simp: ctx_inv_def registry_def split: option.splits)
  then have len: "length (checks ?t) = unat (rows ?t)" by (simp add: table_wf_def)
  have "count_checks ?t 0 0 = Inr r \<longleftrightarrow> (\<forall>i < unat r. checks ?t ! i)"
    using count_checks_from [OF len, of 0 0] pass_iff_all_checked [OF wf] tab(1) by simp
  also have "\<dots> \<longleftrightarrow> (\<forall>i < length vs. list_ex (\<lambda>w. first_match vs (take (unat c) w) = Some i) ws)"
    using tab(2) assms(5) by (simp add: session_flags_def)
  finally show ?thesis using run reg by blast
qed


text \<open>C25 (the table count wraps): \<open>len\<close> is an \<open>unsigned int\<close> and
  \<open>mcdc_alloc_table\<close> never checks it.  After \<open>2^32 - 1\<close> successful
  allocations the next one computes \<open>1 + len = 0\<close>, reallocates the list to no
  slots and stores the new table out of bounds.\<close>

theorem alloc_count_wraps:
  "sbind (mcdc_run (replicate (2 ^ 32 - 1) (Alloc_table all_ok r c nm)) mcdc_init)
     (mcdc_call_step (Alloc_table all_ok r c nm)) = Inl Write_oob"
proof -
  obtain st where run: "mcdc_run (replicate (2 ^ 32 - 1) (Alloc_table all_ok r c nm)) mcdc_init = Inr st"
    and inv: "ctx_inv (m_mcdc_context st)"
    and len: "ctx_len (m_mcdc_context st) = of_nat (2 ^ 32 - 1)"
    using mcdc_run_allocs [of "2 ^ 32 - 1" r c nm] by auto
  from len have "ctx_len (m_mcdc_context st) = - 1" by simp
  with run inv show ?thesis by (simp add: mcdc_alloc_table_full all_ok_def)
qed


subsection \<open>Coverage can be reached, except for duplicated rows\<close>

lemma checks_after_checks:
  assumes inv: "ctx_inv (m_mcdc_context st)" and k: "unat k < length (registry st)"
    and fit: "dims_fit (registry st ! unat k)"
    and long: "list_all (\<lambda>w. unat (cols (registry st ! unat k)) \<le> length w) ws"
  obtains st' where "mcdc_run (map (Check_row k) ws) st = Inr st'"
    and "registry st' ! unat k = check_tables (registry st ! unat k) ws"
    and "checks (registry st' ! unat k) =
           map (\<lambda>i. checks (registry st ! unat k) ! i \<or>
                    list_ex (\<lambda>w. first_match (expected_rows (registry st ! unat k))
                                 (take (unat (cols (registry st ! unat k))) w) = Some i) ws)
             [0..<unat (rows (registry st ! unat k))]"
proof -
  let ?t = "registry st ! unat k"
  have wf: "table_wf ?t" using ctx_inv_wf [OF inv] k by (simp add: list_all_length)
  then have len: "length (checks ?t) = length (expected_rows ?t)" by (simp add: table_wf_def)
  from wf have "length (checks ?t) = unat (rows ?t)" by (simp add: table_wf_def)
  with mcdc_run_checks [OF inv k fit long] checks_check_tables [OF len, of ws] k that show ?thesis
    by simp
qed

text \<open>C31 (full coverage is reachable, spec 4.2 and 8): for every table of a
  well-formed context whose size did not wrap and whose expected rows are
  pairwise distinct, checking each of its expected rows once, in any context,
  sets every observed flag, and the reporter's count then equals \<open>rows\<close>: the
  table is reported PASS.\<close>

theorem distinct_rows_coverage_reachable:
  assumes inv: "ctx_inv (m_mcdc_context st)" and k: "unat k < length (registry st)"
    and fit: "dims_fit (registry st ! unat k)" and d: "distinct (expected_rows (registry st ! unat k))"
  shows "\<exists>st'. mcdc_run (map (Check_row k) (expected_rows (registry st ! unat k))) st = Inr st' \<and>
           checks (registry st' ! unat k) = replicate (unat (rows (registry st ! unat k))) True \<and>
           count_checks (registry st' ! unat k) 0 0 = Inr (rows (registry st ! unat k))"
proof -
  let ?t = "registry st ! unat k" and ?rs = "expected_rows (registry st ! unat k)"
  have wf: "table_wf ?t" using ctx_inv_wf [OF inv] k by (simp add: list_all_length)
  have rowlen: "\<forall>i < length ?rs. length (?rs ! i) = unat (cols ?t)"
    using length_expected_row [OF wf fit] by simp
  then have long: "list_all (\<lambda>w. unat (cols ?t) \<le> length w) ?rs"
    by (simp add: list_all_length)
  obtain st' where run: "mcdc_run (map (Check_row k) ?rs) st = Inr st'"
    and t': "registry st' ! unat k = check_tables ?t ?rs"
    and cs: "checks (registry st' ! unat k) =
           map (\<lambda>i. checks ?t ! i \<or> list_ex (\<lambda>w. first_match ?rs (take (unat (cols ?t)) w) = Some i) ?rs)
             [0..<unat (rows ?t)]"
    by (rule checks_after_checks [OF inv k fit long])
  have "\<forall>i < length ?rs. list_ex (\<lambda>w. first_match ?rs (take (unat (cols ?t)) w) = Some i) ?rs"
  proof (intro allI impI)
    fix i assume i: "i < length ?rs"
    have "take (unat (cols ?t)) (?rs ! i) = ?rs ! i" using rowlen i by simp
    with first_match_distinct [OF d i]
    have "first_match ?rs (take (unat (cols ?t)) (?rs ! i)) = Some i" by simp
    moreover have "?rs ! i \<in> set ?rs" using i by (rule nth_mem)
    ultimately show "list_ex (\<lambda>w. first_match ?rs (take (unat (cols ?t)) w) = Some i) ?rs"
      by (auto simp: list_ex_iff)
  qed
  then have all: "checks (registry st' ! unat k) = replicate (unat (rows ?t)) True"
    using cs by (simp add: list_eq_iff_nth_eq)
  have "count_checks (registry st' ! unat k) 0 0 = Inr (rows ?t)"
    using count_checks_from [of "registry st' ! unat k" 0 0] all t' by simp
  with run all show ?thesis by blast
qed

text \<open>C32 (a duplicated row can never be checked, spec 4.2 against spec 8):
  if row \<open>j\<close> of a table repeats an earlier row \<open>i\<close>, no sequence of checks
  changes its observed flag, although every observation equal to it is an
  exact match of row \<open>j\<close>; the table is then never reported PASS, whereas
  spec section 8 asks for PASS once every row has received a matching
  \<open>check_row\<close>.\<close>

theorem duplicate_row_never_checked:
  assumes inv: "ctx_inv (m_mcdc_context st)" and k: "unat k < length (registry st)"
    and fit: "dims_fit (registry st ! unat k)"
    and long: "list_all (\<lambda>w. unat (cols (registry st ! unat k)) \<le> length w) ws"
    and ij: "i < j" and j: "j < unat (rows (registry st ! unat k))"
    and dup: "expected_row (registry st ! unat k) i = expected_row (registry st ! unat k) j"
  shows "\<exists>st'. mcdc_run (map (Check_row k) ws) st = Inr st' \<and>
           checks (registry st' ! unat k) ! j = checks (registry st ! unat k) ! j"
proof -
  let ?t = "registry st ! unat k" and ?rs = "expected_rows (registry st ! unat k)"
  obtain st' where run: "mcdc_run (map (Check_row k) ws) st = Inr st'"
    and cs: "checks (registry st' ! unat k) =
           map (\<lambda>i. checks ?t ! i \<or> list_ex (\<lambda>w. first_match ?rs (take (unat (cols ?t)) w) = Some i) ws)
             [0..<unat (rows ?t)]"
    by (rule checks_after_checks [OF inv k fit long])
  have jl: "j < length ?rs" using j by simp
  have eq: "?rs ! i = ?rs ! j" using dup ij j by simp
  have "\<forall>v. first_match ?rs v \<noteq> Some j" using first_match_not_duplicate [OF ij jl eq] by blast
  then have "\<not> list_ex (\<lambda>w. first_match ?rs (take (unat (cols ?t)) w) = Some j) ws"
    by (simp add: list_ex_iff)
  with cs j run show ?thesis by simp
qed

subsection \<open>Order, failed allocations and size boundaries\<close>

text \<open>C15 (the order of observations does not matter, spec 4.2): for a table of
  a well-formed context whose size fits, any two sequences of checks with the
  same observed vectors, in any order and with any repetitions, leave the same
  state: a check only ever sets the flag of the first matching row, so only the
  set of observations counts.\<close>

theorem checks_order_independent:
  assumes inv: "ctx_inv (m_mcdc_context st)" and k: "unat k < length (registry st)"
    and fit: "dims_fit (registry st ! unat k)"
    and long: "list_all (\<lambda>w. unat (cols (registry st ! unat k)) \<le> length w) ws"
    and long': "list_all (\<lambda>w. unat (cols (registry st ! unat k)) \<le> length w) ws'"
    and same: "set ws = set ws'"
  shows "mcdc_run (map (Check_row k) ws) st = mcdc_run (map (Check_row k) ws') st"
proof -
  have "table_wf (registry st ! unat k)" using ctx_inv_wf [OF inv] k by (simp add: list_all_length)
  then have "length (checks (registry st ! unat k)) = length (expected_rows (registry st ! unat k))"
    by (simp add: table_wf_def expected_rows_def)
  then have "check_tables (registry st ! unat k) ws = check_tables (registry st ! unat k) ws'"
    using same by (rule check_tables_set)
  then show ?thesis
    by (simp only: mcdc_run_checks [OF inv k fit long] mcdc_run_checks [OF inv k fit long'])
qed

text \<open>C16 (allocation size wraps, spec 4.1): \<open>mcdc_alloc_table\<close> computes the
  matrix size \<open>rows * cols\<close> in \<open>unsigned int\<close>.  Whenever the product reaches
  \<open>2^32\<close> the allocation still succeeds, but the matrix is shorter than
  \<open>rows * cols\<close>, and registering the table's rows (\<open>rows\<close> vectors of at
  least \<open>cols\<close> conditions) always ends in undefined behaviour: some
  registration writes past the matrix.\<close>

theorem wrapped_table_registration_is_ub:
  assumes inv: "ctx_inv (m_mcdc_context st)" and nf: "ctx_len (m_mcdc_context st) \<noteq> - 1"
    and wrap: "2 ^ 32 \<le> unat r * unat c" and nrows: "length vs = unat r"
    and long: "list_all (\<lambda>v. unat c \<le> length v) vs"
  shows "\<exists>st1. mcdc_alloc_table all_ok r c nm st = Inr st1 \<and>
           length (table (last (registry st1))) < unat r * unat c \<and>
           (\<exists>e. mcdc_run (map Register_row vs) st1 = Inl e)"
proof -
  let ?nt = "new_table r c nm"
  obtain st1 where a: "mcdc_alloc_table all_ok r c nm st = Inr st1"
    and reg1: "registry st1 = registry st @ [?nt]" and m1: "m_nrows st1 = 0"
    using mcdc_alloc_table_ok [where ok = all_ok and n_rows = r and n_cols = c and t_name = nm,
                               OF _ _ _ inv nf]
    by (simp add: all_ok_def registry_def)
  have inv1: "ctx_inv (m_mcdc_context st1)" using mcdc_alloc_table_inv [OF inv a] .
  have c: "c \<noteq> 0" using wrap by (auto simp: unat_eq_zero)
  have "unat (r * c) < 2 ^ 32" by (rule unat_u32_bound)
  with wrap have short: "length (table ?nt) < unat r * unat c" by (simp add: new_table_def)
  have "\<exists>e. mcdc_run (map Register_row vs) st1 = Inl e"
    using mcdc_run_registers_overflow [OF inv1] reg1 m1 c short nrows long
    by (simp add: new_table_def)
  with a reg1 short show ?thesis by simp
qed

text \<open>C17 (registration after a failed allocation, spec 4.1): after an allocation
  whose flags or matrix \<open>calloc\<close> fails, the cursor has been reset but no table
  was added, so the next registration writes row 0 of the previous table,
  overwriting whatever was registered there.\<close>

theorem failed_alloc_then_register_overwrites_previous:
  assumes inv: "ctx_inv (m_mcdc_context st)" and ne: "registry st \<noteq> []"
    and fail: "\<not> checks_ok ok \<or> \<not> table_ok ok"
    and fit: "dims_fit (last (registry st))" and pos: "0 < rows (last (registry st))"
    and long: "unat (cols (last (registry st))) \<le> length v"
  shows "\<exists>st'. mcdc_run [Alloc_table ok r c nm, Register_row v] st = Inr st' \<and>
           registry st' = butlast (registry st) @ [register_table (last (registry st)) 0 v]"
proof -
  let ?st1 = "st\<lparr>m_nrows := 0, m_rows := r, m_cols := c,
             heap_blocks := heap_blocks st + of_bool (checks_ok ok) + of_bool (table_ok ok),
             stderr_log := stderr_log st @ alloc_errors ok\<rparr>"
  have a: "mcdc_alloc_table ok r c nm st = Inr ?st1" by (rule mcdc_alloc_table_buffer_fail [OF fail])
  have inv1: "ctx_inv (m_mcdc_context ?st1)" using inv by simp
  have reg1: "registry ?st1 = registry st" by (simp add: registry_def)
  have "mcdc_register_row v ?st1 =
     Inr ((set_registry ?st1 (butlast (registry st) @ [register_table (last (registry st)) 0 v]))
          \<lparr>m_nrows := 1\<rparr>)"
    using mcdc_register_row_eq [OF inv1] reg1 ne fit pos long by simp
  with a show ?thesis by (simp add: registry_def set_registry_def)
qed

text \<open>C26 (unregistered rows match all-false observations, spec 3): a table whose
  registration stopped after \<open>k < rows\<close> rows still holds the all-false rows
  \<open>calloc\<close> gave it from row \<open>k\<close> on, and \<open>mcdc_check_row\<close> scans them too:
  when no registered row is all-false, an all-false observation marks row
  \<open>k\<close>, a row the test design never registered.\<close>

theorem unregistered_row_matches_zero_vector:
  assumes inv: "ctx_inv (m_mcdc_context st)" and k: "ctx_len (m_mcdc_context st) = k"
    and nf: "k \<noteq> - 1" and fit: "unat r * unat c < 2 ^ 32" and part: "length vs < unat r"
    and vlen: "list_all (\<lambda>v. length v = unat c) vs" and nz: "replicate (unat c) False \<notin> set vs"
  shows "\<exists>st' t'. mcdc_run (Alloc_table all_ok r c nm # map Register_row vs @
                             [Check_row k (replicate (unat c) False)]) st = Inr st' \<and>
           registry st' = registry st @ [t'] \<and>
           checks t' = (replicate (unat r) False)[length vs := True]"
proof -
  let ?nt = "new_table r c nm" and ?z = "replicate (unat c) False"
  let ?t2 = "register_tables ?nt 0 vs"
  obtain st' where run: "mcdc_run (Alloc_table all_ok r c nm # map Register_row vs @
                                   map (Check_row k) [?z]) st = Inr st'"
    and reg: "registry st' = registry st @ [check_tables ?t2 [?z]]"
    using mcdc_run_session [OF inv k nf fit less_imp_le [OF part] vlen, of "[?z]" nm] by auto
  have wf: "table_wf ?nt" and fit1: "dims_fit ?nt"
    using fit by (simp_all add: new_table_def table_wf_def dims_fit_def)
  have long: "list_all (\<lambda>v. unat (cols ?nt) \<le> length v) vs"
    using vlen by (simp add: new_table_def list_all_iff)
  have row: "\<And>j. j < unat r \<Longrightarrow> expected_row ?t2 j = (if j < length vs then vs ! j else ?z)"
    using expected_row_register_tables [OF wf fit1 _ long] part vlen expected_row_new_table fit
    by (simp add: new_table_def list_all_length)
  have "first_match (expected_rows ?t2) ?z = Some (length vs)"
    unfolding first_match_Some_iff using part row nz
    by (auto simp: expected_rows_def new_table_def in_set_conv_nth)
  then have "checks (check_tables ?t2 [?z]) = (replicate (unat r) False)[length vs := True]"
    by (simp add: check_tables_def mark_first_def new_table_def)
  with run reg show ?thesis by auto
qed

end
