(* ===== verification/MCDC_Strncmp.thy ===== *)
theory MCDC_Strncmp
  imports MCDC_Session
begin

text \<open>
  The instrumented example and its test driver (\<open>src/test/strncmp.c\<close>).
  \<open>spt_strncmp\<close> compares at most \<open>n\<close> characters of two C strings and reports
  the three conditions of its loop decision to table 0 (\<open>MCDC_CHECK(0, ...)\<close>)
  at every iteration and once after the loop, and the decision \<open>i == n\<close> to
  table 1.  A C string is \<open>c_str\<close>: \<open>None\<close> for \<open>NULL\<close>, otherwise the whole
  character array, terminator included; reading past the array is undefined
  behaviour.  \<open>char\<close> is signed (the x86-64 ABI): \<open>(int)str1[i]\<close> is
  \<open>c_char_int\<close>.  The arguments of \<open>MCDC_CHECK\<close> are evaluated without
  short-circuit (\<open>strncmp_conds\<close>).  \<open>test_strncmp\<close> allocates and registers the
  two tables, runs the four test cases and prints failures; \<open>main\<close> then prints
  the coverage report.  Allocator outcomes of the two allocations are parameters.
  The lemmas compare \<open>spt_strncmp\<close> with a reference \<open>strncmp_spec\<close> on
  terminated strings: the loop ends inside both arrays, every coverage call
  succeeds on a state with both tables (\<open>strncmp_ready\<close>), the observations
  reported are exactly the trace of condition triples the loop visits
  (\<open>strncmp_trace\<close>, \<open>strncmp_loop_trace\<close>), and the result is the reference
  one (\<open>spt_strncmp_eq\<close>); a \<open>NULL\<close> argument is always dereferenced.
  Against ISO \<open>strncmp\<close>, which compares \<open>unsigned char\<close> values
  (\<open>strncmp_iso\<close>), the sign of the result differs exactly when the first
  differing characters lie on different sides of 0x80 (\<open>high_split\<close>).
\<close>

type_synonym c_str = "char list option"

definition c_lit :: "string \<Rightarrow> c_str" where
  "c_lit s = Some (s @ [CHR 0x00])"

definition deref :: "c_str \<Rightarrow> u32 \<Rightarrow> char c_result" where
  "deref p i = (case p of None \<Rightarrow> Inl Null_deref | Some s \<Rightarrow> buf_load s (unat i))"

definition c_char_int :: "char \<Rightarrow> int" where
  "c_char_int c = sint (of_nat (of_char c) :: 8 word)"

definition strncmp_conds :: "c_str \<Rightarrow> c_str \<Rightarrow> u32 \<Rightarrow> u32 \<Rightarrow> bool list c_result" where
  "strncmp_conds str1 str2 n i =
     sbind (deref str1 i) (\<lambda>c1. sbind (deref str2 i) (\<lambda>c2.
       Inr [i < n, c1 \<noteq> CHR 0x00, c1 = c2]))"

function strncmp_loop :: "c_str \<Rightarrow> c_str \<Rightarrow> u32 \<Rightarrow> u32 \<Rightarrow> mcdc_state \<Rightarrow> (u32 \<times> mcdc_state) c_result" where
  "strncmp_loop str1 str2 n i st =
     (if i < n then
        sbind (deref str1 i) (\<lambda>c1.
          if c1 = CHR 0x00 then Inr (i, st)
          else sbind (deref str2 i) (\<lambda>c2.
            if c1 = c2 then
              sbind (strncmp_conds str1 str2 n i) (\<lambda>v.
              sbind (mcdc_check_row 0 v st) (\<lambda>st'.
                strncmp_loop str1 str2 n (i + 1) st'))
            else Inr (i, st)))
      else Inr (i, st))"
  by pat_completeness auto
termination
  by (relation "measure (\<lambda>(str1, str2, n, i, st). unat n - unat i)")
     (auto simp: unat_Suc_less word_less_nat_alt)

definition spt_strncmp :: "c_str \<Rightarrow> c_str \<Rightarrow> u32 \<Rightarrow> mcdc_state \<Rightarrow> (int \<times> mcdc_state) c_result" where
  "spt_strncmp str1 str2 n st =
     sbind (strncmp_loop str1 str2 n 0 st) (\<lambda>(i, st1).
     sbind (strncmp_conds str1 str2 n i) (\<lambda>v.
     sbind (mcdc_check_row 0 v st1) (\<lambda>st2.
       if i = n then
         sbind (mcdc_check_row 1 [i = n] st2) (\<lambda>st3. Inr (0, st3))
       else
         sbind (mcdc_check_row 1 [i = n] st2) (\<lambda>st3.
         sbind (deref str1 i) (\<lambda>c1. sbind (deref str2 i) (\<lambda>c2.
           Inr (c_char_int c1 - c_char_int c2, st3)))))))"

record strncmp_test =
  t_str1 :: c_str
  t_str2 :: c_str
  t_n :: u32
  t_expected :: int

definition strncmp_tests :: "strncmp_test list" where
  "strncmp_tests =
     [\<lparr>t_str1 = c_lit ''apple'', t_str2 = c_lit ''applee'', t_n = 5, t_expected = 0\<rparr>,
      \<lparr>t_str1 = c_lit ''apples'', t_str2 = c_lit ''applee'', t_n = 4, t_expected = 0\<rparr>,
      \<lparr>t_str1 = c_lit (''ap'' @ [CHR 0x00] @ ''les''), t_str2 = c_lit (''ap'' @ [CHR 0x00] @ ''lee''),
       t_n = 5, t_expected = 0\<rparr>,
      \<lparr>t_str1 = c_lit ''hellos'', t_str2 = c_lit ''hellx'', t_n = 5,
       t_expected = of_char (CHR ''o'') - of_char (CHR ''x'')\<rparr>]"

definition decision_name :: string where
  "decision_name = ''i < n && str1[i] != '' @ [CHR 0x5C] @ ''0 && str1[i] == str2[i]''"

definition test_strncmp_setup :: "alloc_outcome \<Rightarrow> alloc_outcome \<Rightarrow> mcdc_state \<Rightarrow> mcdc_state c_result" where
  "test_strncmp_setup ok1 ok2 st =
     mcdc_run [Alloc_table ok1 4 3 decision_name,
               Register_row [False, True, True], Register_row [True, False, True],
               Register_row [True, True, False], Register_row [True, True, True],
               Alloc_table ok2 2 1 ''i == n'',
               Register_row [False], Register_row [True]] st"

fun fmt_int :: "int \<Rightarrow> string" where
  "fmt_int x = (if x < 0 then ''-'' @ fmt_nat (nat (- x)) else fmt_nat (nat x))"

definition c_text :: "c_str \<Rightarrow> string" where
  "c_text p = (case p of None \<Rightarrow> [] | Some s \<Rightarrow> takeWhile (\<lambda>c. c \<noteq> CHR 0x00) s)"

fun run_tests :: "nat \<Rightarrow> strncmp_test list \<Rightarrow> nat \<Rightarrow> mcdc_state \<Rightarrow> (string \<times> nat \<times> mcdc_state) c_result" where
  "run_tests k [] num_pass st = Inr ([], num_pass, st)"
| "run_tests k (tc # tcs) num_pass st =
     sbind (spt_strncmp (t_str1 tc) (t_str2 tc) (t_n tc) st) (\<lambda>(result, st1).
       let (line, num_pass') =
         (if result = t_expected tc then ([], Suc num_pass)
          else (''Test '' @ fmt_int (int k + 1) @ '' failed: strncmp('' @ [CHR 0x22] @
                c_text (t_str1 tc) @ [CHR 0x22] @ '', '' @ [CHR 0x22] @ c_text (t_str2 tc) @
                [CHR 0x22] @ '', '' @ fmt_u (t_n tc) @ '') = '' @
                fmt_int result @ '', expected '' @ fmt_int (t_expected tc) @ nl, num_pass))
       in sbind (run_tests (Suc k) tcs num_pass' st1) (\<lambda>(out, np, st2). Inr (line @ out, np, st2)))"

definition test_strncmp :: "alloc_outcome \<Rightarrow> alloc_outcome \<Rightarrow> mcdc_state \<Rightarrow> (string \<times> mcdc_state) c_result" where
  "test_strncmp ok1 ok2 st =
     sbind (test_strncmp_setup ok1 ok2 st) (\<lambda>st1.
     sbind (run_tests 0 strncmp_tests 0 st1) (\<lambda>(out, num_pass, st2).
       Inr (out @ (if num_pass = length strncmp_tests then ''All test passed'' @ nl else []), st2)))"

definition main :: "alloc_outcome \<Rightarrow> alloc_outcome \<Rightarrow> string c_result" where
  "main ok1 ok2 =
     sbind (test_strncmp ok1 ok2 mcdc_init) (\<lambda>(out, st).
     sbind (mcdc_check_mcdc st) (\<lambda>report. Inr (out @ report)))"

text \<open>Reference semantics: the first \<open>n\<close> characters compared up to the first
  terminator, the difference of the first differing (signed) characters.\<close>

fun strncmp_spec :: "string \<Rightarrow> string \<Rightarrow> nat \<Rightarrow> int" where
  "strncmp_spec (c1 # s1) (c2 # s2) (Suc n) =
     (if c1 \<noteq> CHR 0x00 \<and> c1 = c2 then strncmp_spec s1 s2 n else c_char_int c1 - c_char_int c2)"
| "strncmp_spec _ _ _ = 0"

text \<open>The coverage tables the instrumentation reports to exist with at most three
  and one condition columns and sizes that did not wrap.\<close>

definition strncmp_ready :: "mcdc_state \<Rightarrow> bool" where
  "strncmp_ready st \<longleftrightarrow>
     ctx_inv (m_mcdc_context st) \<and> 2 \<le> length (registry st) \<and>
     dims_fit (registry st ! 0) \<and> unat (cols (registry st ! 0)) \<le> 3 \<and>
     dims_fit (registry st ! 1) \<and> unat (cols (registry st ! 1)) \<le> 1"

text \<open>The trace the instrumentation is meant to report (spec section 8): the
  condition triple \<open>(i < n, str1[i] != 0, str1[i] == str2[i])\<close> at every index
  the loop visits, including the one it stops at, and the index it stops at.\<close>

definition strncmp_obs :: "string \<Rightarrow> string \<Rightarrow> nat \<Rightarrow> nat \<Rightarrow> bool list" where
  "strncmp_obs s1 s2 n i = [i < n, s1 ! i \<noteq> CHR 0x00, s1 ! i = s2 ! i]"

fun stop_index :: "string \<Rightarrow> string \<Rightarrow> nat \<Rightarrow> nat" where
  "stop_index (c1 # s1) (c2 # s2) (Suc n) =
     (if c1 \<noteq> CHR 0x00 \<and> c1 = c2 then Suc (stop_index s1 s2 n) else 0)"
| "stop_index _ _ _ = 0"

definition strncmp_trace :: "string \<Rightarrow> string \<Rightarrow> nat \<Rightarrow> bool list list" where
  "strncmp_trace s1 s2 n = map (strncmp_obs s1 s2 n) [0..<Suc (stop_index s1 s2 n)]"

text \<open>ISO C \<open>strncmp\<close> (7.24.4.4): the difference of the first differing
  characters read as \<open>unsigned char\<close>; and whether those two characters lie on
  different sides of 0x80.\<close>

fun strncmp_iso :: "string \<Rightarrow> string \<Rightarrow> nat \<Rightarrow> int" where
  "strncmp_iso (c1 # s1) (c2 # s2) (Suc n) =
     (if c1 \<noteq> CHR 0x00 \<and> c1 = c2 then strncmp_iso s1 s2 n
      else int (of_char c1 :: nat) - int (of_char c2 :: nat))"
| "strncmp_iso _ _ _ = 0"

fun high_split :: "string \<Rightarrow> string \<Rightarrow> nat \<Rightarrow> bool" where
  "high_split (c1 # s1) (c2 # s2) (Suc n) =
     (if c1 \<noteq> CHR 0x00 \<and> c1 = c2 then high_split s1 s2 n
      else ((128::nat) \<le> of_char c1) \<noteq> ((128::nat) \<le> of_char c2))"
| "high_split _ _ _ = False"

declare strncmp_loop.simps [simp del]

lemma nul_bound:
  assumes "CHR 0x00 \<in> set s" and "\<forall>j < k. s ! j \<noteq> CHR 0x00"
  shows "k < length s"
proof (rule ccontr)
  assume "\<not> k < length s"
  moreover from assms(1) obtain p where "p < length s" and "s ! p = CHR 0x00"
    by (auto simp: in_set_conv_nth)
  ultimately show False using assms(2) by auto
qed

lemma strncmp_ready_check_tables:
  assumes ready: "strncmp_ready st" and k: "k < 2"
  shows "strncmp_ready (set_registry st ((registry st)[k := check_tables (registry st ! k) ws]))"
proof -
  from ready have inv: "ctx_inv (m_mcdc_context st)" and two: "2 \<le> length (registry st)"
    by (auto simp: strncmp_ready_def)
  from inv two have wf: "list_all table_wf (registry st)"
    by (auto simp: ctx_inv_def registry_def split: option.splits)
  from k two have kk: "k < length (registry st)" by simp
  have wf': "list_all table_wf ((registry st)[k := check_tables (registry st ! k) ws])"
    using wf kk by (auto simp: list_all_length nth_list_update)
  have inv': "ctx_inv (m_mcdc_context (set_registry st
                ((registry st)[k := check_tables (registry st ! k) ws])))"
  proof (rule ctx_inv_set_registry [OF inv _ _ wf'])
    show "(registry st)[k := check_tables (registry st ! k) ws] \<noteq> []" using two by auto
  qed simp
  from k have "k = 0 \<or> k = 1" by auto
  moreover from two have "0 < length (registry st)" "1 < length (registry st)" by auto
  ultimately show ?thesis
    using ready inv' two
    by (elim disjE) (auto simp: strncmp_ready_def nth_list_update)
qed

lemma check_row_ready_eq:
  assumes ready: "strncmp_ready st" and k: "unat at_table < 2"
    and long: "unat (cols (registry st ! unat at_table)) \<le> length v"
  shows "mcdc_check_row at_table v st =
     Inr (set_registry st ((registry st)[unat at_table := check_tables (registry st ! unat at_table) [v]]))"
proof -
  from ready have inv: "ctx_inv (m_mcdc_context st)" and two: "2 \<le> length (registry st)"
    by (auto simp: strncmp_ready_def)
  from k two have kk: "unat at_table < length (registry st)" by simp
  from ready k have fit: "dims_fit (registry st ! unat at_table)"
    by (auto simp: strncmp_ready_def less_2_cases_iff)
  show ?thesis using mcdc_check_row_eq [OF inv kk fit long] by simp
qed

lemma stop_index_eq:
  assumes "\<forall>k < j. s1 ! k \<noteq> CHR 0x00 \<and> s1 ! k = s2 ! k" and "j \<le> m"
    and "j < m \<longrightarrow> s1 ! j = CHR 0x00 \<or> s1 ! j \<noteq> s2 ! j"
    and "j < length s1" and "j < length s2"
  shows "stop_index s1 s2 m = j"
  using assms
proof (induction j arbitrary: s1 s2 m)
  case 0
  then obtain c1 r1 c2 r2 where s: "s1 = c1 # r1" "s2 = c2 # r2"
    by (cases s1; cases s2) auto
  with 0 show ?case by (cases m) auto
next
  case (Suc j)
  then obtain c1 r1 c2 r2 m' where s: "s1 = c1 # r1" "s2 = c2 # r2" "m = Suc m'"
    by (cases s1; cases s2; cases m) auto
  with Suc.prems(1) have c: "c1 \<noteq> CHR 0x00" "c1 = c2" by auto
  have "stop_index r1 r2 m' = j"
    using Suc.prems s by (intro Suc.IH) auto
  with s c show ?case by simp
qed

lemma strncmp_loop_trace:
  assumes "strncmp_ready st" and "CHR 0x00 \<in> set s1" and "CHR 0x00 \<in> set s2"
    and "\<forall>j < unat i. s1 ! j \<noteq> CHR 0x00 \<and> s1 ! j = s2 ! j" and "i \<le> n"
  shows "\<exists>j. strncmp_loop (Some s1) (Some s2) n i st =
             Inr (j, set_registry st ((registry st)[0 := check_tables (registry st ! 0)
                                        (map (strncmp_obs s1 s2 (unat n)) [unat i..<unat j])])) \<and>
           i \<le> j \<and> j \<le> n \<and> (\<forall>k < unat j. s1 ! k \<noteq> CHR 0x00 \<and> s1 ! k = s2 ! k) \<and>
           (j < n \<longrightarrow> s1 ! unat j = CHR 0x00 \<or> s1 ! unat j \<noteq> s2 ! unat j)"
  using assms
proof (induction "Some s1" "Some s2" n i st rule: strncmp_loop.induct)
  case (1 n i st)
  note ready = "1.prems"(1) and pre = "1.prems"(4) and le = "1.prems"(5)
  have b1: "unat i < length s1" using nul_bound [OF "1.prems"(2)] pre by auto
  have "\<forall>j < unat i. s2 ! j \<noteq> CHR 0x00" using pre by auto
  then have b2: "unat i < length s2" by (rule nul_bound [OF "1.prems"(3)])
  from ready have "registry st \<noteq> []" and "ctx_inv (m_mcdc_context st)"
    by (auto simp: strncmp_ready_def)
  then have same: "set_registry st ((registry st)[0 := check_tables (registry st ! 0) []]) = st"
    by (simp add: set_registry_same)
  show ?case
  proof (cases "i < n \<and> s1 ! unat i \<noteq> CHR 0x00 \<and> s1 ! unat i = s2 ! unat i")
    case False
    then have "strncmp_loop (Some s1) (Some s2) n i st = Inr (i, st)"
      using b1 b2 by (auto simp: strncmp_loop.simps [of _ _ n i st] deref_def buf_load_def)
    with False le pre same show ?thesis by auto
  next
    case True
    then have lt: "i < n" and c: "s1 ! unat i \<noteq> CHR 0x00" "s1 ! unat i = s2 ! unat i" by auto
    let ?v = "strncmp_obs s1 s2 (unat n) (unat i)"
    have v: "[i < n, s1 ! unat i \<noteq> CHR 0x00, s1 ! unat i = s2 ! unat i] = ?v"
      by (simp add: strncmp_obs_def word_less_nat_alt)
    have cols0: "unat (cols (registry st ! unat (0::u32))) \<le> length ?v"
      using ready by (simp add: strncmp_ready_def strncmp_obs_def)
    let ?st1 = "set_registry st ((registry st)[0 := check_tables (registry st ! 0) [?v]])"
    have st1: "mcdc_check_row 0 ?v st = Inr ?st1"
      using check_row_ready_eq [OF ready _ cols0] by simp
    have ready1: "strncmp_ready ?st1" by (rule strncmp_ready_check_tables [OF ready]) simp
    have suc: "unat (i + 1) = Suc (unat i)" using lt by (rule unat_Suc_less)
    have pre': "\<forall>j < unat (i + 1). s1 ! j \<noteq> CHR 0x00 \<and> s1 ! j = s2 ! j"
      using pre c suc by (auto simp: less_Suc_eq)
    have le': "i + 1 \<le> n" using lt by (simp add: word_less_nat_alt word_le_nat_alt suc)
    have conds: "strncmp_conds (Some s1) (Some s2) n i = Inr ?v"
      using b1 b2 v by (simp add: strncmp_conds_def deref_def buf_load_def)
    obtain j where loop: "strncmp_loop (Some s1) (Some s2) n (i + 1) ?st1 =
             Inr (j, set_registry ?st1 ((registry ?st1)[0 := check_tables (registry ?st1 ! 0)
                                        (map (strncmp_obs s1 s2 (unat n)) [unat (i + 1)..<unat j])]))"
      and ij: "i + 1 \<le> j" and rest: "j \<le> n" "\<forall>k < unat j. s1 ! k \<noteq> CHR 0x00 \<and> s1 ! k = s2 ! k"
        "j < n \<longrightarrow> s1 ! unat j = CHR 0x00 \<or> s1 ! unat j \<noteq> s2 ! unat j"
      using "1.hyps" [OF lt c ready1 "1.prems"(2,3) pre' le'] by blast
    from ij suc have ij': "unat i < unat j" by (simp add: word_le_nat_alt)
    then have up: "[unat i..<unat j] = unat i # [Suc (unat i)..<unat j]" by (simp add: upt_conv_Cons)
    have "0 < length (registry st)" using ready by (auto simp: strncmp_ready_def)
    then have "strncmp_loop (Some s1) (Some s2) n i st =
             Inr (j, set_registry st ((registry st)[0 := check_tables (registry st ! 0)
                                        (map (strncmp_obs s1 s2 (unat n)) [unat i..<unat j])]))"
      using loop lt c b1 b2 conds st1 suc up v
      by (simp add: strncmp_loop.simps [of _ _ n i st] deref_def buf_load_def)
    moreover have "i \<le> j" using ij' by (simp add: word_le_nat_alt)
    ultimately show ?thesis using rest by blast
  qed
qed

lemma strncmp_spec_prefix:
  assumes "\<forall>k < j. s1 ! k \<noteq> CHR 0x00 \<and> s1 ! k = s2 ! k" and "j \<le> length s1" and "j \<le> length s2"
    and "j \<le> n"
  shows "strncmp_spec s1 s2 n = strncmp_spec (drop j s1) (drop j s2) (n - j)"
  using assms
proof (induction j arbitrary: s1 s2 n)
  case 0
  then show ?case by simp
next
  case (Suc j)
  then obtain c1 r1 c2 r2 m where s: "s1 = c1 # r1" "s2 = c2 # r2" "n = Suc m"
    by (cases s1; cases s2; cases n) auto
  with Suc.prems have c: "c1 \<noteq> CHR 0x00" "c1 = c2" by auto
  have "\<forall>k < j. r1 ! k \<noteq> CHR 0x00 \<and> r1 ! k = r2 ! k"
    using Suc.prems(1) s by auto
  moreover have "j \<le> length r1" "j \<le> length r2" "j \<le> m" using Suc.prems s by auto
  ultimately have "strncmp_spec r1 r2 m = strncmp_spec (drop j r1) (drop j r2) (m - j)"
    by (rule Suc.IH)
  with s c show ?case by simp
qed

lemma strncmp_loop_exit:
  assumes ready: "strncmp_ready st" and t1: "CHR 0x00 \<in> set s1" and t2: "CHR 0x00 \<in> set s2"
  obtains j where "strncmp_loop (Some s1) (Some s2) n 0 st =
      Inr (j, set_registry st ((registry st)[0 := check_tables (registry st ! 0)
                                 (map (strncmp_obs s1 s2 (unat n)) [0..<unat j])]))"
    and "j \<le> n" and "\<forall>k < unat j. s1 ! k \<noteq> CHR 0x00 \<and> s1 ! k = s2 ! k"
    and "j < n \<longrightarrow> s1 ! unat j = CHR 0x00 \<or> s1 ! unat j \<noteq> s2 ! unat j"
    and "unat j < length s1" and "unat j < length s2"
    and "stop_index s1 s2 (unat n) = unat j"
proof -
  obtain j where loop: "strncmp_loop (Some s1) (Some s2) n 0 st =
      Inr (j, set_registry st ((registry st)[0 := check_tables (registry st ! 0)
                                 (map (strncmp_obs s1 s2 (unat n)) [0..<unat j])]))"
    and le: "j \<le> n" and pre: "\<forall>k < unat j. s1 ! k \<noteq> CHR 0x00 \<and> s1 ! k = s2 ! k"
    and stop: "j < n \<longrightarrow> s1 ! unat j = CHR 0x00 \<or> s1 ! unat j \<noteq> s2 ! unat j"
    using strncmp_loop_trace [OF ready t1 t2, of 0 n] by auto
  have b1: "unat j < length s1" using nul_bound [OF t1] pre by auto
  have "\<forall>k < unat j. s2 ! k \<noteq> CHR 0x00" using pre by auto
  then have b2: "unat j < length s2" by (rule nul_bound [OF t2])
  have ulen: "unat j \<le> unat n" using le by (simp add: word_le_nat_alt)
  have stop': "unat j < unat n \<longrightarrow> s1 ! unat j = CHR 0x00 \<or> s1 ! unat j \<noteq> s2 ! unat j"
    using stop by (simp add: word_less_nat_alt)
  have "stop_index s1 s2 (unat n) = unat j" by (rule stop_index_eq [OF pre ulen stop' b1 b2])
  with that loop le pre stop b1 b2 show ?thesis by blast
qed

lemma spt_strncmp_eq:
  assumes ready: "strncmp_ready st" and t1: "CHR 0x00 \<in> set s1" and t2: "CHR 0x00 \<in> set s2"
  shows "spt_strncmp (Some s1) (Some s2) n st =
     Inr (strncmp_spec s1 s2 (unat n),
          set_registry st ((registry st)
            [0 := check_tables (registry st ! 0) (strncmp_trace s1 s2 (unat n)),
             1 := check_tables (registry st ! 1) [[stop_index s1 s2 (unat n) = unat n]]]))"
proof -
  let ?obs = "strncmp_obs s1 s2 (unat n)"
  obtain j where loop: "strncmp_loop (Some s1) (Some s2) n 0 st =
      Inr (j, set_registry st ((registry st)[0 := check_tables (registry st ! 0)
                                 (map ?obs [0..<unat j])]))"
    and le: "j \<le> n" and pre: "\<forall>k < unat j. s1 ! k \<noteq> CHR 0x00 \<and> s1 ! k = s2 ! k"
    and stop: "j < n \<longrightarrow> s1 ! unat j = CHR 0x00 \<or> s1 ! unat j \<noteq> s2 ! unat j"
    and b1: "unat j < length s1" and b2: "unat j < length s2"
    and sj: "stop_index s1 s2 (unat n) = unat j"
    by (rule strncmp_loop_exit [OF ready t1 t2])
  let ?st1 = "set_registry st ((registry st)[0 := check_tables (registry st ! 0) (map ?obs [0..<unat j])])"
  have ulen: "unat j \<le> unat n" using le by (simp add: word_le_nat_alt)
  have conds: "strncmp_conds (Some s1) (Some s2) n j = Inr (?obs (unat j))"
    using b1 b2 by (simp add: strncmp_conds_def deref_def buf_load_def strncmp_obs_def word_less_nat_alt)
  have two: "0 < length (registry st)" "1 < length (registry st)"
    using ready by (auto simp: strncmp_ready_def)
  have ready1: "strncmp_ready ?st1" by (rule strncmp_ready_check_tables [OF ready]) simp
  have c0: "unat (cols (registry ?st1 ! unat (0::u32))) \<le> length (?obs (unat j))"
    using ready1 by (simp add: strncmp_ready_def strncmp_obs_def)
  let ?st2 = "set_registry st ((registry st)[0 := check_tables (registry st ! 0) (strncmp_trace s1 s2 (unat n))])"
  have st2: "mcdc_check_row 0 (?obs (unat j)) ?st1 = Inr ?st2"
    using check_row_ready_eq [OF ready1 _ c0] two sj by (simp add: strncmp_trace_def)
  have ready2: "strncmp_ready ?st2" by (rule strncmp_ready_check_tables [OF ready]) simp
  have c1: "unat (cols (registry ?st2 ! unat (1::u32))) \<le> length [j = n]"
    using ready2 by (simp add: strncmp_ready_def)
  have st3: "mcdc_check_row 1 [j = n] ?st2 =
     Inr (set_registry st ((registry st)
            [0 := check_tables (registry st ! 0) (strncmp_trace s1 s2 (unat n)),
             1 := check_tables (registry st ! 1) [[stop_index s1 s2 (unat n) = unat n]]]))"
    using check_row_ready_eq [OF ready2 _ c1] two sj by (simp add: word_unat_eq_iff)
  have spec: "strncmp_spec s1 s2 (unat n) =
              strncmp_spec (drop (unat j) s1) (drop (unat j) s2) (unat n - unat j)"
    using pre b1 b2 ulen by (intro strncmp_spec_prefix) auto
  show ?thesis
  proof (cases "j = n")
    case True
    with spec have "strncmp_spec s1 s2 (unat n) = 0" by simp
    with True loop conds st2 st3 show ?thesis by (simp add: spt_strncmp_def)
  next
    case False
    with le have "j < n" by simp
    then have lt: "unat j < unat n" by (simp add: word_less_nat_alt)
    have d1: "drop (unat j) s1 = s1 ! unat j # drop (Suc (unat j)) s1"
      using b1 by (simp add: Cons_nth_drop_Suc)
    have d2: "drop (unat j) s2 = s2 ! unat j # drop (Suc (unat j)) s2"
      using b2 by (simp add: Cons_nth_drop_Suc)
    from lt obtain m where m: "unat n - unat j = Suc m" by (cases "unat n - unat j") auto
    from \<open>j < n\<close> stop have "s1 ! unat j = CHR 0x00 \<or> s1 ! unat j \<noteq> s2 ! unat j"
      by blast
    with spec d1 d2 m have "strncmp_spec s1 s2 (unat n) =
        c_char_int (s1 ! unat j) - c_char_int (s2 ! unat j)" by auto
    with False loop conds st2 st3 b1 b2 show ?thesis
      by (simp add: spt_strncmp_def deref_def buf_load_def)
  qed
qed

lemma prefix_le_takeWhile:
  "\<forall>k < j. xs ! k \<noteq> x \<Longrightarrow> j \<le> length xs \<Longrightarrow> j \<le> length (takeWhile (\<lambda>c. c \<noteq> x) xs)"
proof (induction xs arbitrary: j)
  case Nil
  then show ?case by simp
next
  case (Cons y ys)
  show ?case
  proof (cases j)
    case 0
    then show ?thesis by simp
  next
    case (Suc i)
    with Cons.prems have "y \<noteq> x" and "\<forall>k < i. ys ! k \<noteq> x" and "i \<le> length ys" by auto
    with Cons.IH Suc show ?thesis by simp
  qed
qed

lemma c_char_int_byte:
  "c_char_int c = (if of_char c < (128::nat) then int (of_char c :: nat) else int (of_char c :: nat) - 256)"
  using sint_byte [OF nat_of_char_less_256 [of c]] by (simp add: c_char_int_def)

lemma sgn_byte_difference:
  fixes x y :: nat
  assumes "x < 256" and "y < 256"
  shows "sgn ((if x < 128 then int x else int x - 256) - (if y < 128 then int y else int y - 256)) =
     (if (128 \<le> x) \<noteq> (128 \<le> y) then - sgn (int x - int y) else sgn (int x - int y))"
  using assms by (auto simp: sgn_if)

lemma sgn_char_difference:
  "sgn (c_char_int a - c_char_int b) =
     (if ((128::nat) \<le> of_char a) \<noteq> ((128::nat) \<le> of_char b)
      then - sgn (int (of_char a :: nat) - int (of_char b :: nat))
      else sgn (int (of_char a :: nat) - int (of_char b :: nat)))"
  using sgn_byte_difference [OF nat_of_char_less_256 nat_of_char_less_256, of a b]
  by (simp add: c_char_int_byte)

lemma sgn_strncmp_spec:
  "sgn (strncmp_spec s1 s2 n) =
     (if high_split s1 s2 n then - sgn (strncmp_iso s1 s2 n) else sgn (strncmp_iso s1 s2 n))"
  by (induction s1 s2 n rule: strncmp_iso.induct) (simp_all add: sgn_char_difference)

subsection \<open>Properties of the instrumented function\<close>

text \<open>C18 (\<open>spt_strncmp\<close> is total, memory-safe and correct): for any two
  terminated C strings and any state in which the two coverage tables exist with
  fitting sizes, \<open>spt_strncmp\<close> reads only inside both arrays (the final
  \<open>MCDC_CHECK\<close> included), every coverage call succeeds, the tables stay ready,
  and the result is the reference comparison \<open>strncmp_spec\<close> of the first
  \<open>n\<close> characters.\<close>


theorem spt_strncmp_correct:
  assumes ready: "strncmp_ready st" and t1: "CHR 0x00 \<in> set s1" and t2: "CHR 0x00 \<in> set s2"
  shows "\<exists>st'. spt_strncmp (Some s1) (Some s2) n st = Inr (strncmp_spec s1 s2 (unat n), st') \<and>
           strncmp_ready st'"
proof -
  let ?st2 = "set_registry st ((registry st)[0 := check_tables (registry st ! 0) (strncmp_trace s1 s2 (unat n))])"
  have ready2: "strncmp_ready ?st2" by (rule strncmp_ready_check_tables [OF ready]) simp
  have two: "2 \<le> length (registry st)" using ready by (simp add: strncmp_ready_def)
  have "strncmp_ready (set_registry ?st2 ((registry ?st2)
          [1 := check_tables (registry ?st2 ! 1) [[stop_index s1 s2 (unat n) = unat n]]]))"
    by (rule strncmp_ready_check_tables [OF ready2]) simp
  with spt_strncmp_eq [OF ready t1 t2, of n] two show ?thesis by simp
qed

text \<open>C19 (the \<open>NULL\<close> check is ineffective): \<open>spt_strncmp\<close> tests its arguments
  for \<open>NULL\<close> and sets \<open>result = 1\<close>, but then goes on to dereference them (at
  the latest in the \<open>MCDC_CHECK\<close> after the loop), so a \<open>NULL\<close> argument is
  always undefined behaviour and the value 1 is never returned.\<close>


theorem spt_strncmp_null_is_ub:
  assumes "str1 = None \<or> str2 = None" and "str1 \<noteq> Some []"
  shows "spt_strncmp str1 str2 n st = Inl Null_deref"
proof (cases str1)
  case None
  then show ?thesis
    by (simp add: spt_strncmp_def strncmp_loop.simps [of None str2 n 0 st] deref_def
        strncmp_conds_def)
next
  case (Some s)
  with assms have s2: "str2 = None" and ne: "s \<noteq> []" by auto
  from ne have "buf_load s (unat (0::u32)) = Inr (s ! 0)" by (simp add: buf_load_def)
  with Some s2 show ?thesis
    by (simp add: spt_strncmp_def strncmp_loop.simps [of "Some s" None n 0 st] deref_def
        strncmp_conds_def)
qed


text \<open>C24 (the reported observations are the loop's trace, spec section 8): for
  terminated strings and a state with both tables, \<open>spt_strncmp\<close> reports to
  table 0 exactly the condition triples \<open>(i < n, str1[i] != 0, str1[i] == str2[i])\<close>
  of every index the loop visits, the index it stops at included, in order, and
  to table 1 exactly one observation, whether it stopped at \<open>n\<close>; no other
  table and nothing else of the state changes.  So the flags set by a call are
  determined by the trace alone.\<close>

theorem spt_strncmp_reports_trace:
  assumes "strncmp_ready st" and "CHR 0x00 \<in> set s1" and "CHR 0x00 \<in> set s2"
  shows "\<exists>r. spt_strncmp (Some s1) (Some s2) n st =
           Inr (r, set_registry st ((registry st)
             [0 := check_tables (registry st ! 0)
                     (map (strncmp_obs s1 s2 (unat n)) [0..<Suc (stop_index s1 s2 (unat n))]),
              1 := check_tables (registry st ! 1) [[stop_index s1 s2 (unat n) = unat n]]]))"
  using spt_strncmp_eq [OF assms, of n] by (simp add: strncmp_trace_def)


text \<open>C30 (the loop stops early): for terminated strings the \<open>while\<close> loop
  of \<open>spt_strncmp\<close> ends at the index \<open>stop_index\<close> of the reference
  semantics, after at most \<open>n\<close> iterations and never past the terminator of
  \<open>str1\<close>; so it ends after at most \<open>strlen(str1)\<close> iterations even when
  \<open>n\<close> is \<open>UINT_MAX\<close>.\<close>

theorem strncmp_loop_stops:
  assumes "strncmp_ready st" and "CHR 0x00 \<in> set s1" and "CHR 0x00 \<in> set s2"
  shows "\<exists>j st'. strncmp_loop (Some s1) (Some s2) n 0 st = Inr (j, st') \<and>
           unat j = stop_index s1 s2 (unat n) \<and> unat j \<le> unat n \<and>
           unat j \<le> length (takeWhile (\<lambda>c. c \<noteq> CHR 0x00) s1)"
proof -
  obtain j st' where loop: "strncmp_loop (Some s1) (Some s2) n 0 st = Inr (j, st')"
    and le: "j \<le> n" and pre: "\<forall>k < unat j. s1 ! k \<noteq> CHR 0x00 \<and> s1 ! k = s2 ! k"
    and b1: "unat j < length s1" and sj: "stop_index s1 s2 (unat n) = unat j"
    by (rule strncmp_loop_exit [OF assms]) blast
  have "unat j \<le> length (takeWhile (\<lambda>c. c \<noteq> CHR 0x00) s1)"
    using pre b1 by (intro prefix_le_takeWhile) auto
  with loop le sj show ?thesis by (auto simp: word_le_nat_alt)
qed

text \<open>C20 (signed characters against ISO \<open>strncmp\<close>): \<open>spt_strncmp\<close> subtracts
  plain \<open>char\<close> values, signed on the modelled target, while ISO C \<open>strncmp\<close>
  compares as \<open>unsigned char\<close> (\<open>strncmp_iso\<close>).  For all terminated strings
  and every \<open>n\<close> the two results have the same sign, except when exactly one of
  the first two differing characters is at least 0x80: there the order is
  reversed.\<close>

theorem signed_char_ordering:
  assumes "strncmp_ready st" and "CHR 0x00 \<in> set s1" and "CHR 0x00 \<in> set s2"
  shows "\<exists>r st'. spt_strncmp (Some s1) (Some s2) n st = Inr (r, st') \<and>
           sgn r = (if high_split s1 s2 (unat n) then - sgn (strncmp_iso s1 s2 (unat n))
                    else sgn (strncmp_iso s1 s2 (unat n)))"
  using spt_strncmp_eq [OF assms, of n] sgn_strncmp_spec [of s1 s2 "unat n"] by simp

end
