(* ===== verification/MCDC_Abstract.thy ===== *)
theory MCDC_Abstract
  imports MCDC_Session
begin

text \<open>
  The abstract specification of the library (spec sections 3, 4 and 7): the
  reimplementation the spec asks for, on unbounded naturals and lists, with an
  explicit error for every misuse instead of undefined behaviour.  A context is
  the list of tables in allocation order and the registration cursor; a table
  is its name, dimensions, expected rows and observed flags.  \<open>spec_step\<close>
  interprets the same calls (\<open>mcdc_call\<close>) as the C model.  The abstraction
  \<open>abs_state\<close> reads a C state through the row view.  The lemmas show that
  every call the specification accepts is performed by the C code with the same
  abstract effect, provided the sizes fit in \<open>unsigned int\<close> (\<open>call_fits\<close>) and
  fewer than \<open>2^32 - 1\<close> tables exist; by induction the same holds for runs.
\<close>

datatype spec_error =
    Allocation_failure
  | Out_of_range_registration
  | Out_of_range_table_index
  | Wrong_width

record spec_table =
  s_name :: string
  s_rows :: nat
  s_cols :: nat
  s_expected :: "bool list list"
  s_observed :: "bool list"

record spec_ctx =
  s_tables :: "spec_table list"
  s_cursor :: nat

definition spec_new_table :: "nat \<Rightarrow> nat \<Rightarrow> string \<Rightarrow> spec_table" where
  "spec_new_table r c nm =
     \<lparr>s_name = nm, s_rows = r, s_cols = c, s_expected = replicate r (replicate c False),
      s_observed = replicate r False\<rparr>"

definition spec_alloc ::
  "alloc_outcome \<Rightarrow> nat \<Rightarrow> nat \<Rightarrow> string \<Rightarrow> spec_ctx \<Rightarrow> spec_error + spec_ctx" where
  "spec_alloc ok r c nm S =
     (if checks_ok ok \<and> table_ok ok \<and> list_ok ok
      then Inr \<lparr>s_tables = s_tables S @ [spec_new_table r c nm], s_cursor = 0\<rparr>
      else Inl Allocation_failure)"

definition spec_register :: "bool list \<Rightarrow> spec_ctx \<Rightarrow> spec_error + spec_ctx" where
  "spec_register v S =
     (let ts = s_tables S in
      if ts = [] \<or> s_rows (last ts) \<le> s_cursor S then Inl Out_of_range_registration
      else if length v \<noteq> s_cols (last ts) then Inl Wrong_width
      else Inr \<lparr>s_tables = butlast ts @ [last ts\<lparr>s_expected := (s_expected (last ts))[s_cursor S := v]\<rparr>],
                s_cursor = Suc (s_cursor S)\<rparr>)"

definition spec_check :: "nat \<Rightarrow> bool list \<Rightarrow> spec_ctx \<Rightarrow> spec_error + spec_ctx" where
  "spec_check k v S =
     (let ts = s_tables S in
      if length ts \<le> k then Inl Out_of_range_table_index
      else if length v \<noteq> s_cols (ts ! k) then Inl Wrong_width
      else Inr (S\<lparr>s_tables := ts[k := (ts ! k)\<lparr>s_observed :=
                   mark_first (s_expected (ts ! k)) v (s_observed (ts ! k))\<rparr>]\<rparr>))"

fun spec_step :: "mcdc_call \<Rightarrow> spec_ctx \<Rightarrow> spec_error + spec_ctx" where
  "spec_step (Alloc_table ok n_rows n_cols t_name) S = spec_alloc ok (unat n_rows) (unat n_cols) t_name S"
| "spec_step (Register_row conds) S = spec_register conds S"
| "spec_step (Check_row at_table row) S = spec_check (unat at_table) row S"

fun spec_run :: "mcdc_call list \<Rightarrow> spec_ctx \<Rightarrow> spec_error + spec_ctx" where
  "spec_run [] S = Inr S"
| "spec_run (c # cs) S = sbind (spec_step c S) (spec_run cs)"

text \<open>The calls whose sizes the C code can represent: the matrix of an
  allocation has fewer than \<open>2^32\<close> cells.\<close>

fun call_fits :: "mcdc_call \<Rightarrow> bool" where
  "call_fits (Alloc_table ok n_rows n_cols t_name) \<longleftrightarrow> unat n_rows * unat n_cols < 2 ^ 32"
| "call_fits _ \<longleftrightarrow> True"

definition abs_table :: "mcdc_table_t \<Rightarrow> spec_table" where
  "abs_table t =
     \<lparr>s_name = name t, s_rows = unat (rows t), s_cols = unat (cols t),
      s_expected = expected_rows t, s_observed = checks t\<rparr>"

definition abs_state :: "mcdc_state \<Rightarrow> spec_ctx" where
  "abs_state st = \<lparr>s_tables = map abs_table (registry st), s_cursor = unat (m_nrows st)\<rparr>"


subsection \<open>The abstraction on each operation\<close>

lemma expected_rows_new_table:
  assumes "unat r * unat c < 2 ^ 32"
  shows "expected_rows (new_table r c nm) = replicate (unat r) (replicate (unat c) False)"
proof -
  have "\<forall>i < unat r. expected_row (new_table r c nm) i = replicate (unat c) False"
  proof (intro allI impI)
    fix i assume "i < unat r"
    then have "i * unat c + unat c \<le> unat r * unat c" by (rule row_offset_bound)
    with assms show "expected_row (new_table r c nm) i = replicate (unat c) False"
      by (simp add: expected_row_def buf_slice_def new_table_def unat_mult_no_wrap min_def)
  qed
  then show ?thesis by (simp add: expected_rows_def new_table_def list_eq_iff_nth_eq)
qed

lemma abs_new_table:
  "unat r * unat c < 2 ^ 32 \<Longrightarrow> abs_table (new_table r c nm) = spec_new_table (unat r) (unat c) nm"
  by (simp add: abs_table_def spec_new_table_def expected_rows_new_table) (simp add: new_table_def)

lemma expected_rows_register_table:
  assumes "table_wf t" and "dims_fit t" and "k < unat (rows t)" and "unat (cols t) \<le> length v"
  shows "expected_rows (register_table t k v) = (expected_rows t)[k := take (unat (cols t)) v]"
  using expected_row_register_table [OF assms] assms(3)
  by (simp add: list_eq_iff_nth_eq nth_list_update)

lemma abs_register_table:
  assumes "table_wf t" and "dims_fit t" and "k < unat (rows t)" and "length v = unat (cols t)"
  shows "abs_table (register_table t k v) = (abs_table t)\<lparr>s_expected := (s_expected (abs_table t))[k := v]\<rparr>"
  using expected_rows_register_table [OF assms(1-3)] assms(4) by (simp add: abs_table_def)

lemma abs_check_table:
  "length v = unat (cols t) \<Longrightarrow>
   abs_table (check_table t v) =
     (abs_table t)\<lparr>s_observed := mark_first (s_expected (abs_table t)) v (s_observed (abs_table t))\<rparr>"
  by (simp add: abs_table_def)


lemma ctx_len_of_registry:
  assumes "ctx_inv (m_mcdc_context st)"
  shows "ctx_len (m_mcdc_context st) = of_nat (length (registry st))"
proof -
  from assms have "unat (ctx_len (m_mcdc_context st)) = length (registry st)"
    by (auto simp: ctx_inv_def registry_def split: option.splits)
  from this [symmetric] show ?thesis by simp
qed

lemma alloc_refined:
  assumes inv: "ctx_inv (m_mcdc_context st)" and fit: "list_all dims_fit (registry st)"
    and room: "Suc (length (registry st)) < 2 ^ 32" and cf: "unat r * unat c < 2 ^ 32"
    and spec: "spec_alloc ok (unat r) (unat c) nm (abs_state st) = Inr S'"
  shows "\<exists>st'. mcdc_alloc_table ok r c nm st = Inr st' \<and> abs_state st' = S' \<and>
           ctx_inv (m_mcdc_context st') \<and> list_all dims_fit (registry st')"
proof -
  from spec have ok: "checks_ok ok" "table_ok ok" "list_ok ok"
    and S': "S' = \<lparr>s_tables = map abs_table (registry st) @ [spec_new_table (unat r) (unat c) nm],
                   s_cursor = 0\<rparr>"
    by (auto simp: spec_alloc_def abs_state_def split: if_splits)
  have nf: "ctx_len (m_mcdc_context st) \<noteq> - 1"
    using of_nat_ne_minus_one [OF room] ctx_len_of_registry [OF inv] by simp
  note a = mcdc_alloc_table_ok [OF ok inv nf, of r c nm]
  have "dims_fit (new_table r c nm)" using cf by (simp add: dims_fit_def new_table_def)
  with a S' abs_new_table [OF cf] fit mcdc_alloc_table_inv [OF inv a] show ?thesis
    by (simp add: abs_state_def registry_def)
qed

lemma register_refined:
  assumes inv: "ctx_inv (m_mcdc_context st)" and fit: "list_all dims_fit (registry st)"
    and spec: "spec_register v (abs_state st) = Inr S'"
  shows "\<exists>st'. mcdc_register_row v st = Inr st' \<and> abs_state st' = S' \<and>
           ctx_inv (m_mcdc_context st') \<and> list_all dims_fit (registry st')"
proof -
  let ?t = "last (registry st)" and ?m = "m_nrows st"
  from spec have ne: "registry st \<noteq> []" and cur: "unat ?m < unat (rows ?t)"
    and long: "length v = unat (cols ?t)"
    and S': "S' = \<lparr>s_tables = butlast (map abs_table (registry st)) @
                     [(abs_table ?t)\<lparr>s_expected := (s_expected (abs_table ?t))[unat ?m := v]\<rparr>],
                   s_cursor = Suc (unat ?m)\<rparr>"
    by (auto simp: spec_register_def abs_state_def Let_def last_map abs_table_def split: if_splits)
  have wf: "table_wf ?t" using ctx_inv_wf [OF inv] ne by (simp add: list_all_iff)
  have ft: "dims_fit ?t" using fit ne by (simp add: list_all_iff)
  have cur': "?m < rows ?t" using cur by (simp add: word_less_nat_alt)
  note eq = mcdc_register_row_eq [OF inv ne ft cur'] 
  have suc: "unat (?m + 1) = Suc (unat ?m)" using cur' by (rule unat_Suc_less)
  have fit': "list_all dims_fit (butlast (registry st))"
    using fit by (simp add: list_all_iff in_set_butlastD)
  show ?thesis
    using eq [of v] long S' abs_register_table [OF wf ft cur long] suc fit' ft
      mcdc_register_row_inv [OF inv eq [of v]]
    by (simp add: abs_state_def map_butlast)
qed

lemma check_refined:
  assumes inv: "ctx_inv (m_mcdc_context st)" and fit: "list_all dims_fit (registry st)"
    and spec: "spec_check (unat k) v (abs_state st) = Inr S'"
  shows "\<exists>st'. mcdc_check_row k v st = Inr st' \<and> abs_state st' = S' \<and>
           ctx_inv (m_mcdc_context st') \<and> list_all dims_fit (registry st')"
proof -
  let ?t = "registry st ! unat k"
  from spec have kk: "unat k < length (registry st)" and long: "length v = unat (cols ?t)"
    and S': "S' = (abs_state st)\<lparr>s_tables := (map abs_table (registry st))[unat k :=
               (abs_table ?t)\<lparr>s_observed := mark_first (s_expected (abs_table ?t)) v
                                                  (s_observed (abs_table ?t))\<rparr>]\<rparr>"
    by (auto simp: spec_check_def abs_state_def Let_def abs_table_def split: if_splits)
  have ft: "dims_fit ?t" using fit kk by (simp add: list_all_length)
  note eq = mcdc_check_row_eq [OF inv kk ft, of v]
  have fit': "list_all dims_fit ((registry st)[unat k := check_table ?t v])"
    using fit kk by (auto simp: list_all_length nth_list_update)
  show ?thesis
    using eq long S' abs_check_table [OF long] fit' mcdc_check_row_inv [OF inv eq]
    by (simp add: abs_state_def map_update)
qed


lemma step_refined:
  assumes inv: "ctx_inv (m_mcdc_context st)" and fit: "list_all dims_fit (registry st)"
    and room: "Suc (length (registry st)) < 2 ^ 32" and cf: "call_fits c"
    and spec: "spec_step c (abs_state st) = Inr S'"
  shows "\<exists>st'. mcdc_call_step c st = Inr st' \<and> abs_state st' = S' \<and>
           ctx_inv (m_mcdc_context st') \<and> list_all dims_fit (registry st')"
proof (cases c)
  case (Alloc_table ok r cc nm)
  with alloc_refined [OF inv fit room] cf spec show ?thesis by simp
next
  case (Register_row v)
  with register_refined [OF inv fit] spec show ?thesis by simp
next
  case (Check_row k v)
  with check_refined [OF inv fit] spec show ?thesis by simp
qed

lemma spec_step_length:
  "spec_step c S = Inr S' \<Longrightarrow> length (s_tables S') \<le> Suc (length (s_tables S))"
  by (cases c)
     (auto simp: spec_alloc_def spec_register_def spec_check_def Let_def split: if_splits)

lemma length_abs_state [simp]: "length (s_tables (abs_state st)) = length (registry st)"
  by (simp add: abs_state_def)

subsection \<open>Refinement\<close>

lemma spec_run_refined:
  assumes "ctx_inv (m_mcdc_context st)" and "list_all dims_fit (registry st)"
    and "list_all call_fits cs" and "length (registry st) + length cs < 2 ^ 32"
    and "spec_run cs (abs_state st) = Inr S'"
  shows "\<exists>st'. mcdc_run cs st = Inr st' \<and> abs_state st' = S'"
  using assms
proof (induction cs arbitrary: st)
  case Nil
  then show ?case by simp
next
  case (Cons c cs)
  from Cons.prems(5) obtain S1 where s1: "spec_step c (abs_state st) = Inr S1"
    and rest: "spec_run cs S1 = Inr S'"
    by (auto simp: sbind_eq_Inr)
  have room: "Suc (length (registry st)) < 2 ^ 32" using Cons.prems(4) by simp
  obtain st1 where step: "mcdc_call_step c st = Inr st1" and abs1: "abs_state st1 = S1"
    and inv1: "ctx_inv (m_mcdc_context st1)" and fit1: "list_all dims_fit (registry st1)"
    using step_refined [OF Cons.prems(1,2) room _ s1] Cons.prems(3) by auto
  have "length (registry st1) \<le> Suc (length (registry st))"
    using spec_step_length [OF s1] abs1 by auto
  then have "length (registry st1) + length cs < 2 ^ 32" using Cons.prems(4) by simp
  with Cons.IH [OF inv1 fit1 _ _ ] Cons.prems(3) abs1 rest step show ?case by simp
qed

text \<open>C28 (the C library refines its specification, spec sections 3, 4 and 7):
  from any well-formed context whose tables' sizes fit, every sequence of calls
  that the specification performs without error, with sizes that fit in
  \<open>unsigned int\<close> and fewer than \<open>2^32\<close> tables in all, is run to its end by
  the C code, and the resulting C state reads, through the row view, as the
  state the specification computes: same tables in the same order, same names,
  dimensions, expected rows and observed flags, same registration cursor.  The
  only undefined behaviour on the way is the out-of-bounds \<open>memset\<close> of the
  allocations after the first (C13): the faults logged are the initial ones
  followed by out-of-bounds writes only; no other access leaves its buffer.\<close>

theorem c_refines_spec:
  assumes "ctx_inv (m_mcdc_context st)" and "list_all dims_fit (registry st)"
    and "list_all call_fits cs" and "length (registry st) + length cs < 2 ^ 32"
    and "spec_run cs (abs_state st) = Inr S'"
  shows "\<exists>st'. mcdc_run cs st = Inr st' \<and> abs_state st' = S' \<and>
           (\<exists>k. faults st' = faults st @ replicate k Write_oob)"
  using spec_run_refined [OF assms] mcdc_run_faults by blast

end
