(* ===== verification/MCDC_Report_Parse.thy ===== *)
theory MCDC_Report_Parse
  imports MCDC_Report "HOL-Library.Monad_Syntax"
begin

text \<open>
  Reading the report back.  Spec section 6 fixes the report text so that
  existing tooling can consume it; this theory gives the reader such tooling
  needs, as parsers on strings (\<open>'a parser\<close>: the value read and the rest of
  the input, or \<open>None\<close>), and proves that the text \<open>mcdc_check_mcdc\<close> prints
  is read back to exactly the row view of every table: \<open>%u\<close> numbers
  (\<open>fmt_nat\<close>), the cells and status of a row line, the header, and whole
  reports.  The one requirement is that no table name contains a newline:
  the name is printed raw with \<open>%s\<close>.
\<close>

type_synonym 'a parser = "string \<Rightarrow> ('a \<times> string) option"

definition is_digit :: "char \<Rightarrow> bool" where
  "is_digit c \<longleftrightarrow> (48::nat) \<le> of_char c \<and> of_char c \<le> (57::nat)"

fun read_digits :: "nat \<Rightarrow> string \<Rightarrow> nat \<times> string" where
  "read_digits acc [] = (acc, [])"
| "read_digits acc (c # cs) =
     (if is_digit c then read_digits (10 * acc + (of_char c - 48)) cs else (acc, c # cs))"

definition parse_nat :: "nat parser" where
  "parse_nat s = (case s of [] \<Rightarrow> None | c # _ \<Rightarrow> if is_digit c then Some (read_digits 0 s) else None)"

fun match_lit :: "string \<Rightarrow> string \<Rightarrow> string option" where
  "match_lit [] s = Some s"
| "match_lit (x # xs) [] = None"
| "match_lit (x # xs) (y # ys) = (if x = y then match_lit xs ys else None)"

fun parse_cells :: "string \<Rightarrow> bool list \<times> string" where
  "parse_cells (c # d # rest) =
     (if (c = CHR ''T'' \<or> c = CHR ''F'') \<and> d = CHR '' ''
      then (case parse_cells rest of (bs, s) \<Rightarrow> ((c = CHR ''T'') # bs, s))
      else ([], c # d # rest))"
| "parse_cells s = ([], s)"

definition parse_choice :: "string \<Rightarrow> string \<Rightarrow> bool parser" where
  "parse_choice yes no s =
     (case match_lit yes s of
        Some s' \<Rightarrow> Some (True, s')
      | None \<Rightarrow> map_option (\<lambda>s'. (False, s')) (match_lit no s))"

definition parse_row_line :: "(nat \<times> bool list \<times> bool) parser" where
  "parse_row_line s = do {
     s1 \<leftarrow> match_lit '' Test No. '' s;
     (k, s2) \<leftarrow> parse_nat s1;
     s3 \<leftarrow> match_lit '' | '' s2;
     let (r, s4) = parse_cells s3;
     s5 \<leftarrow> match_lit ''| '' s4;
     (b, s6) \<leftarrow> parse_choice ''Checked'' ''Unchecked'' s5;
     s7 \<leftarrow> match_lit nl s6;
     if k = 0 then None else Some ((k - 1, r, b), s7)
   }"

fun parse_rows :: "nat \<Rightarrow> (nat \<times> bool list \<times> bool) list parser" where
  "parse_rows 0 s = Some ([], s)"
| "parse_rows (Suc n) s = do {
     (x, s1) \<leftarrow> parse_row_line s;
     (xs, s2) \<leftarrow> parse_rows n s1;
     Some (x # xs, s2)
   }"

definition parse_header :: "(nat \<times> nat \<times> bool \<times> string) parser" where
  "parse_header s = do {
     s1 \<leftarrow> match_lit (banner @ nl @ '' MC/DC '') s;
     (p, s2) \<leftarrow> parse_nat s1;
     s3 \<leftarrow> match_lit '' x '' s2;
     (r, s4) \<leftarrow> parse_nat s3;
     (ok, s5) \<leftarrow> parse_choice ''PASS'' ''FAIL'' (dropWhile (\<lambda>c. c = CHR '' '') s4);
     s6 \<leftarrow> match_lit (nl @ dashes @ nl @ '' '') s5;
     let t_name = takeWhile (\<lambda>c. c \<noteq> CHR 0x0A) s6;
     s7 \<leftarrow> match_lit (nl @ banner @ nl) (drop (length t_name) s6);
     Some ((p, r, ok, t_name), s7)
   }"

type_synonym table_view = "nat \<times> nat \<times> bool \<times> string \<times> (nat \<times> bool list \<times> bool) list"

definition parse_table_report :: "table_view parser" where
  "parse_table_report s = do {
     ((p, r, ok, t_name), s1) \<leftarrow> parse_header s;
     (ls, s2) \<leftarrow> parse_rows r s1;
     Some ((p, r, ok, t_name, ls), s2)
   }"

text \<open>A report is read table by table until the input is used up; every table
  consumes at least its banner, so the input's length bounds the number of
  tables.\<close>

fun parse_tables :: "nat \<Rightarrow> string \<Rightarrow> table_view list option" where
  "parse_tables _ [] = Some []"
| "parse_tables 0 (c # cs) = None"
| "parse_tables (Suc f) s = do {
     (v, s1) \<leftarrow> parse_table_report s;
     vs \<leftarrow> parse_tables f s1;
     Some (v # vs)
   }"

definition parse_report :: "string \<Rightarrow> table_view list option" where
  "parse_report s = parse_tables (length s) s"

text \<open>What the report of a table says: \<open>checks_passed\<close>, \<open>rows\<close>, the verdict,
  the name, and each row's index, cells and observed flag.\<close>

definition table_view :: "mcdc_table_t \<Rightarrow> table_view" where
  "table_view t =
     (let n = count_list (checks t) True in
      (unat (of_nat n :: u32), unat (rows t), of_nat n = rows t, name t,
       map (\<lambda>i. (i, expected_row t i, checks t ! i)) [0..<unat (rows t)]))"

subsection \<open>Numbers\<close>

declare fmt_nat.simps [simp del]

lemma of_char_digit: "(n::nat) < 10 \<Longrightarrow> of_char (char_of (48 + n)) = 48 + n"
  by (simp add: of_char_of)

lemma is_digit_char_of: "(n::nat) < 10 \<Longrightarrow> is_digit (char_of (48 + n))"
  by (simp add: is_digit_def of_char_digit)

lemma fmt_nat_digits: "list_all is_digit (fmt_nat n) \<and> fmt_nat n \<noteq> []"
  by (induction n rule: fmt_nat.induct) (simp add: fmt_nat.simps is_digit_char_of)

lemma read_digits_fmt_nat:
  "read_digits acc (fmt_nat n @ rest) = read_digits (acc * 10 ^ length (fmt_nat n) + n) rest"
proof (induction n arbitrary: acc rest rule: fmt_nat.induct)
  case (1 n)
  show ?case
  proof (cases "n < 10")
    case True
    then show ?thesis by (simp add: fmt_nat.simps is_digit_char_of of_char_digit mult.commute)
  next
    case False
    let ?l = "length (fmt_nat (n div 10))"
    have "read_digits acc (fmt_nat n @ rest) =
          read_digits acc (fmt_nat (n div 10) @ char_of (48 + n mod 10) # rest)"
      using False by (simp add: fmt_nat.simps [of n])
    also have "\<dots> = read_digits (10 * (acc * 10 ^ ?l + n div 10) + n mod 10) rest"
      using "1.IH" [OF False] by (simp add: is_digit_char_of of_char_digit)
    also have "10 * (acc * 10 ^ ?l + n div 10) + n mod 10 = acc * 10 ^ length (fmt_nat n) + n"
      using False by (simp add: fmt_nat.simps [of n] algebra_simps)
    finally show ?thesis .
  qed
qed


lemma parse_nat_fmt_nat:
  assumes "rest = [] \<or> \<not> is_digit (hd rest)"
  shows "parse_nat (fmt_nat n @ rest) = Some (n, rest)"
proof -
  obtain c cs where f: "fmt_nat n = c # cs" and d: "is_digit c"
    using fmt_nat_digits [of n] by (cases "fmt_nat n") auto
  have "read_digits 0 (fmt_nat n @ rest) = read_digits n rest" by (simp add: read_digits_fmt_nat)
  also have "\<dots> = (n, rest)" using assms by (cases rest) auto
  finally show ?thesis using f d by (simp add: parse_nat_def)
qed

lemma parse_nat_fmt_u:
  "rest = [] \<or> \<not> is_digit (hd rest) \<Longrightarrow> parse_nat (fmt_u x @ rest) = Some (unat x, rest)"
  by (simp add: fmt_u_def parse_nat_fmt_nat)

subsection \<open>Literals, cells and choices\<close>

lemma match_lit_append [simp]: "match_lit (p @ q) (p @ s) = match_lit q s"
  by (induction p) auto

lemma match_lit_same [simp]: "match_lit p (p @ s) = Some s"
  using match_lit_append [of p "[]" s] by simp

lemma not_digit_lits [simp]:
  "\<not> is_digit CHR '' ''" "\<not> is_digit CHR ''|''" "\<not> is_digit CHR 0x0A"
  by (simp_all add: is_digit_def)

lemma parse_cells_cells:
  "parse_cells (concat (map (\<lambda>x. (if x then ''T'' else ''F'') @ '' '') r) @ CHR ''|'' # rest) =
     (r, CHR ''|'' # rest)"
proof (induction r)
  case Nil
  show ?case by (cases rest) simp_all
next
  case (Cons x r)
  then show ?case by (cases x) simp_all
qed

lemma parse_choice_yes [simp]: "parse_choice yes no (yes @ s) = Some (True, s)"
  by (simp add: parse_choice_def)

lemma parse_choice_no:
  "match_lit yes (no @ s) = None \<Longrightarrow> parse_choice yes no (no @ s) = Some (False, s)"
  by (simp add: parse_choice_def)

lemma parse_choice_lits [simp]:
  "parse_choice ''Checked'' ''Unchecked'' (''Unchecked'' @ s) = Some (False, s)"
  "parse_choice ''PASS'' ''FAIL'' (''FAIL'' @ s) = Some (False, s)"
  by (simp_all add: parse_choice_def)

subsection \<open>Row lines, headers and reports\<close>

lemma parse_row_line_row_line:
  "parse_row_line (row_line i r b @ rest) = Some ((i, r, b), rest)"
proof -
  have "parse_nat (fmt_nat (Suc i) @ '' | '' @ concat (map (\<lambda>x. (if x then ''T'' else ''F'') @ '' '') r) @
                   ''| '' @ (if b then ''Checked'' else ''Unchecked'') @ nl @ rest) =
        Some (Suc i, '' | '' @ concat (map (\<lambda>x. (if x then ''T'' else ''F'') @ '' '') r) @
                   ''| '' @ (if b then ''Checked'' else ''Unchecked'') @ nl @ rest)"
    by (rule parse_nat_fmt_nat) simp
  then show ?thesis
    by (cases b) (simp_all add: parse_row_line_def row_line_def parse_cells_cells Let_def
        parse_choice_def)
qed


lemma parse_rows_rows:
  "parse_rows (length xs) (concat (map (\<lambda>(i, r, b). row_line i r b) xs) @ rest) = Some (xs, rest)"
  by (induction xs) (auto simp: parse_row_line_row_line)

lemma dropWhile_replicate_append:
  "P x \<Longrightarrow> dropWhile P (replicate n x @ ys) = dropWhile P ys"
  by (induction n) auto

lemma takeWhile_name:
  "CHR 0x0A \<notin> set t_name \<Longrightarrow> takeWhile (\<lambda>c. c \<noteq> CHR 0x0A) (t_name @ nl @ s) = t_name"
  by (induction t_name) (auto simp: nl_def)

lemma parse_header_print_header:
  assumes "CHR 0x0A \<notin> set t_name"
  shows "parse_header (print_header p r ok t_name @ rest) = Some ((unat p, unat r, ok, t_name), rest)"
proof -
  let ?tail = "'' '' @ pad_left 39 (if ok then ''PASS'' else ''FAIL'') @ nl @ dashes @ nl @
               '' '' @ t_name @ nl @ banner @ nl @ rest"
  have p: "parse_nat (fmt_u p @ '' x '' @ fmt_u r @ ?tail) = Some (unat p, '' x '' @ fmt_u r @ ?tail)"
    by (rule parse_nat_fmt_u) simp
  have r: "parse_nat (fmt_u r @ ?tail) = Some (unat r, ?tail)"
    by (rule parse_nat_fmt_u) simp
  have d: "dropWhile (\<lambda>c. c = CHR '' '') ?tail =
           (if ok then ''PASS'' else ''FAIL'') @ nl @ dashes @ nl @ '' '' @ t_name @ nl @ banner @ nl @ rest"
    by (simp add: pad_left_def dropWhile_replicate_append)
  have n: "takeWhile (\<lambda>c. c \<noteq> CHR 0x0A) (t_name @ nl @ banner @ nl @ rest) = t_name"
    using assms by (rule takeWhile_name)
  show ?thesis
    using p r d n
    by (cases ok) (simp_all add: parse_header_def print_header_def parse_choice_def)
qed


lemma parse_table_report_table_report:
  assumes "CHR 0x0A \<notin> set (name t)"
  shows "parse_table_report (table_report t @ rest) = Some (table_view t, rest)"
proof -
  let ?n = "count_list (checks t) True"
  let ?xs = "map (\<lambda>i. (i, expected_row t i, checks t ! i)) [0..<unat (rows t)]"
  have rows: "concat (map (\<lambda>i. row_line i (expected_row t i) (checks t ! i)) [0..<unat (rows t)]) =
              concat (map (\<lambda>(i, r, b). row_line i r b) ?xs)"
    by (simp add: o_def)
  have "parse_rows (length ?xs) (concat (map (\<lambda>(i, r, b). row_line i r b) ?xs) @ rest) = Some (?xs, rest)"
    by (rule parse_rows_rows)
  with parse_header_print_header [OF assms] rows show ?thesis
    by (simp add: parse_table_report_def table_report_def table_view_def Let_def)
qed

lemma table_report_Cons: "\<exists>c cs. table_report t = c # cs"
proof -
  have "banner \<noteq> []" by (simp add: banner_def)
  then have "table_report t \<noteq> []" by (simp add: table_report_def print_header_def Let_def)
  then show ?thesis by (simp add: neq_Nil_conv)
qed

lemma parse_tables_reports:
  assumes "length (concat (map table_report ts)) \<le> f"
    and "list_all (\<lambda>t. CHR 0x0A \<notin> set (name t)) ts"
  shows "parse_tables f (concat (map table_report ts)) = Some (map table_view ts)"
  using assms
proof (induction ts arbitrary: f)
  case Nil
  then show ?case by simp
next
  case (Cons t ts)
  obtain c cs where tr: "table_report t = c # cs" using table_report_Cons by blast
  from Cons.prems(1) tr obtain f' where f: "f = Suc f'" and len: "length (concat (map table_report ts)) \<le> f'"
    by (cases f) auto
  have "parse_table_report (table_report t @ concat (map table_report ts)) =
        Some (table_view t, concat (map table_report ts))"
    using Cons.prems(2) by (simp add: parse_table_report_table_report)
  with Cons.IH [OF len] Cons.prems(2) tr f show ?case by simp
qed

subsection \<open>Properties of the report format\<close>

text \<open>C29 (the report reads back, spec section 6): on a well-formed context in
  which no table's size wrapped and no table name contains a newline, the text
  \<open>mcdc_check_mcdc\<close> prints is read back by \<open>parse_report\<close> to exactly what it
  reports of every table, in allocation order: \<open>checks_passed\<close>, \<open>rows\<close>, the
  verdict, the name, and each row's index, conditions and observed flag.  The
  printed \<open>%u\<close> numbers, \<open>T\<close>/\<open>F\<close> cells and the padded verdict are thus
  unambiguous.\<close>

theorem report_reads_back:
  assumes "ctx_inv (m_mcdc_context st)" and "list_all dims_fit (registry st)"
    and "list_all (\<lambda>t. CHR 0x0A \<notin> set (name t)) (registry st)"
  shows "\<exists>out. mcdc_check_mcdc st = Inr out \<and> parse_report out = Some (map table_view (registry st))"
proof -
  have "mcdc_check_mcdc st = Inr (concat (map table_report (registry st)))"
    using report_loop_eq [OF assms(1), of 0] assms(2) by (simp add: mcdc_check_mcdc_def registry_def)
  with parse_tables_reports [OF _ assms(3)] show ?thesis by (simp add: parse_report_def)
qed

end
