(* ===== verification/Spec2Isabelle.thy ===== *)
theory Spec2Isabelle
  imports MCDC_Strncmp MCDC_Abstract MCDC_Report_Parse
begin

text \<open>
  \<^bold>\<open>MC/DC coverage tracker (\<open>src/mcdc.c\<close>, \<open>src/mcdc.h\<close>) and its example
  \<open>src/test/strncmp.c\<close>, in HOL.\<close>

  \<^medskip>\<^bold>\<open>The program.\<close>  The library keeps one global context: a heap list of
  coverage tables (\<open>mcdc_table_t\<close>: a name, a row-major matrix of expected
  condition vectors, one observed flag per row, \<open>rows\<close>, \<open>cols\<close>), its length
  \<open>len\<close>, a registration cursor \<open>m_nrows\<close> and the dimensions of the table being
  built.  \<open>mcdc_alloc_table\<close> allocates a table and appends it, through the
  helpers \<open>try\<close>, \<open>try_mcdc_alloc_table\<close>, \<open>try_mcdc_alloc_checks\<close>;
  \<open>mcdc_register_row\<close> copies an expected vector into the most recent table at
  the cursor; \<open>mcdc_check_row\<close> (behind the macro \<open>MCDC_CHECK\<close>) marks the first
  row of a table equal to an observed vector; \<open>mcdc_check_mcdc\<close> prints the
  report.  \<open>spt_strncmp\<close> is instrumented with \<open>MCDC_CHECK\<close>, and
  \<open>test_strncmp\<close>/\<open>main\<close> build its two tables, run four tests and print.

  \<^medskip>\<^bold>\<open>Theories.\<close>
  \<^item> \<open>MCDC_Prelude\<close>: \<open>unsigned int\<close> as \<open>u32 = 32 word\<close> (wrapping), heap buffers
    as lists, undefined behaviour as a value \<open>Inl\<close> of \<open>c_ub\<close> (\<open>NULL\<close>
    dereference, out-of-bounds read or write), \<open>memcpy\<close>/\<open>memcmp\<close>/indexing as
    \<open>buf_copy\<close>/\<open>buf_cmp\<close>/\<open>buf_load\<close>/\<open>buf_store\<close>, threaded by \<open>sbind\<close>; the
    shared lemmas on slices, row offsets and word arithmetic (\<open>buf_simps\<close>).
  \<^item> \<open>MCDC_Table\<close>: the typedefs of \<open>mcdc.h\<close> and the record
    \<open>mcdc_table_t\<close>, its row view
    \<open>expected_row\<close>/\<open>expected_rows\<close>, the shape invariant \<open>table_wf\<close> and
    \<open>dims_fit\<close> (the size \<open>rows * cols\<close> did not wrap).
  \<^item> \<open>MCDC_Context\<close>: the globals as the record \<open>mcdc_state\<close>
    (\<open>m_mcdc_context\<close>, \<open>m_nrows\<close>, \<open>m_rows\<close>, \<open>m_cols\<close>, \<open>errno\<close>, the number
    \<open>heap_blocks\<close> of live heap blocks, the text written to \<open>stderr\<close>, and
    a log \<open>faults\<close> of the out-of-bounds writes the code performs and then continues after); \<open>mcdc_alloc_table\<close> and its
    helpers line by line, \<open>try\<close> with its save, clear, test and restore of
    \<open>errno\<close> (\<open>try_call\<close>).
    \<open>calloc\<close>/\<open>realloc\<close> succeed or return \<open>NULL\<close> as an \<open>alloc_outcome\<close> chosen
    by the environment for each of the three allocations of a call.  Lemmas:
    the result on every branch, and that allocation keeps the registry
    invariant \<open>ctx_inv\<close> (C10 to C13), with the block leaked by a half-failed
    allocation (C11); the caller's \<open>errno\<close> survives every
    allocation and \<open>stderr\<close> gets exactly the failed allocations (C27).
  \<^item> \<open>MCDC_Matcher\<close>: \<open>mcdc_register_row\<close>, the loop of \<open>mcdc_check_row\<close>
    (\<open>mcdc_check_loop\<close>, a \<open>function\<close> terminating by the measure
    \<open>rows - i\<close>) and \<open>mcdc_check_row\<close>; their refinement to the list-level
    operations \<open>register_table\<close> and \<open>mark_first\<close>/\<open>first_match\<close> on the row view
    (C1 to C6); exactly when a check is defined: index in range and a vector at
    least \<open>cols\<close> long, or no rows (C33).
  \<^item> \<open>MCDC_Machine\<close>: the three state-changing calls as the datatype
    \<open>mcdc_call\<close>, the step \<open>mcdc_call_step\<close>, runs \<open>mcdc_run\<close> and the
    reachable states \<open>mcdc_reachable\<close>; the invariant, and that the blocks the
    context references (\<open>live_blocks\<close>) are live, hold in every reachable
    state (C8), and observed flags are never cleared (C9); by rule induction, the
    cursor never passes the last table's \<open>rows\<close> (\<open>cursor_ok\<close>, C34), and so
    exactly when a registration is defined (C7).
  \<^item> \<open>MCDC_Report\<close>: \<open>mcdc_check_mcdc\<close> and its loops producing the exact
    \<open>printf\<close> text (\<open>%u\<close> as \<open>fmt_u\<close>, \<open>%39s\<close> as \<open>pad_left\<close>); the verdict
    counts the observed rows, and when no size wrapped the report is defined
    and is exactly the rendering \<open>table_report\<close> of each table's row view
    (C14, C23).  The report is a function of the state that returns text
    and no new state, so the idempotence of spec section 8 holds by
    construction.
  \<^item> \<open>MCDC_Report_Parse\<close>: a reader of the report format (parsers on strings
    in the style \<open>string \<Rightarrow> ('a \<times> string) option\<close>) and the round trip: the
    text \<open>mcdc_check_mcdc\<close> prints reads back to each table's row view
    (\<open>table_view\<close>) when no name contains a newline (C29).
  \<^item> \<open>MCDC_Session\<close>: the protocol of spec section 6 (one allocation, the
    registrations, then checks) against its abstract contract: the registered
    vectors become the expected rows (\<open>register_tables\<close>) and flag \<open>i\<close> is set
    exactly when row \<open>i\<close> was the first match of some observation
    (\<open>session_flags\<close>); the table is then PASS exactly when every row was so
    matched (C21, C22); the order of the observations does not matter, only
    their set (C15); full coverage is reachable for tables with distinct rows
    (C31), while a duplicated row can never be checked (C32); a table whose
    size wraps can never be registered without undefined behaviour (C16); a
    failed allocation sends the next registration to row 0 of the previous
    table (C17); a partially registered table matches all-false observations
    with its first unregistered row (C26); after \<open>2^32 - 1\<close> allocations the
    table count wraps (C25).
  \<^item> \<open>MCDC_Abstract\<close>: the specification as the reimplementation spec
    sections 3, 4 and 7 describe (\<open>spec_step\<close> on \<open>spec_ctx\<close>, unbounded sizes,
    an explicit \<open>spec_error\<close> for every misuse) and the abstraction \<open>abs_state\<close>
    of C states through the row view; every run the specification accepts, with
    sizes that fit 32 bits, is run to its end by the C code with the same
    abstract result, its only undefined behaviour being the logged
    out-of-bounds \<open>memset\<close> writes (C28).
  \<^item> \<open>MCDC_Strncmp\<close>: \<open>spt_strncmp\<close> over \<open>c_str\<close> (\<open>NULL\<close> or the whole
    character array), signed \<open>char\<close>, and the test driver; correctness against
    the reference \<open>strncmp_spec\<close>, the \<open>NULL\<close> bug, and that the observations
    it reports are exactly the trace of the loop (C18, C19, C24); against ISO
    \<open>strncmp\<close> (\<open>strncmp_iso\<close>, unsigned characters) the sign of the result
    is reversed exactly when the first differing characters lie on different
    sides of 0x80 (C20); the loop stops at the reference stop index, within
    \<open>n\<close> and the terminator (C30).
  \<^item> this theory: the state after \<open>test_strncmp\<close>'s setup (\<open>harness_state\<close>,
    computed from \<open>mcdc_init\<close>), a table with a duplicated row
    (\<open>dup_state\<close>), the witnesses of the claims of the other theories, and
    two whole-run facts: registration before any allocation is undefined
    behaviour, and a table with no columns lets the cursor pass its rows
    without a fault.

  \<^medskip>\<^bold>\<open>Bounds and loops.\<close>  Every loop of the code runs over a \<open>u32\<close> index
  up to a \<open>u32\<close> bound and is a \<open>function\<close> with a measure, so all operations are
  total.  The only fuel is that of the report reader \<open>parse_tables\<close>: the
  length of its input, enough since every table consumes at least its banner.
  Sizes are kept at 32 bits: the proofs that need the
  size \<open>rows * cols\<close> in \<open>nat\<close> assume \<open>dims_fit\<close>, and C16 shows that
  without it no table can be registered safely.  \<open>len + 1\<close> may wrap only after \<open>2^32 - 1\<close> tables; the lemmas of
  allocation assume \<open>len \<noteq> -1\<close>.

  \<^medskip>\<^bold>\<open>Not modelled.\<close>  Heap addresses and the contents of unreferenced
  blocks: the heap is the buffers' contents plus a count of live blocks, which
  is all the code can observe, since it never compares or frees a pointer;
  \<open>errno\<close> values other than \<open>ENOMEM\<close> from a failed
  \<open>calloc\<close> (a successful one is taken to leave \<open>errno\<close> alone),
  what undefined behaviour does after it occurs (the model stops there, except
  for the regrow \<open>memset\<close>, which is logged in \<open>faults\<close> and its bytes
  discarded), \<open>printf\<close> beyond the formats used, and \<open>stdout\<close>/\<open>stderr\<close>
  interleaving (the two streams are kept apart).
\<close>

definition harness_t0 :: mcdc_table_t where
  "harness_t0 =
     \<lparr>name = decision_name,
      table = [False, True, True, True, False, True, True, True, False, True, True, True],
      checks = [False, False, False, False], rows = 4, cols = 3\<rparr>"

definition harness_t1 :: mcdc_table_t where
  "harness_t1 = \<lparr>name = ''i == n'', table = [False, True], checks = [False, False], rows = 2, cols = 1\<rparr>"

definition harness_state :: mcdc_state where
  "harness_state =
     \<lparr>m_mcdc_context = \<lparr>ctx_list = Some [harness_t0, harness_t1], ctx_len = 2\<rparr>,
      m_nrows = 2, m_rows = 2, m_cols = 1, stderr_log = [], faults = [Write_oob], errno = 0,
      heap_blocks = 5\<rparr>"

definition dup_table :: mcdc_table_t where
  "dup_table = \<lparr>name = ''x'', table = [True, False, True], checks = [False, False, False],
                 rows = 3, cols = 1\<rparr>"

definition dup_state :: mcdc_state where
  "dup_state = mcdc_init\<lparr>m_mcdc_context := \<lparr>ctx_list = Some [dup_table], ctx_len = 1\<rparr>\<rparr>"

lemmas harness_simps = harness_state_def harness_t0_def harness_t1_def ctx_inv_def registry_def
  table_wf_def dims_fit_def expected_row_def buf_slice_def

lemma harness_setup: "test_strncmp_setup all_ok all_ok mcdc_init = Inr harness_state"
  by code_simp

lemma harness_reachable: "mcdc_reachable harness_state"
  using mcdc_run_reachable [OF mcdc_reachable.init harness_setup [unfolded test_strncmp_setup_def]] .

subsection \<open>Witnesses of the component properties\<close>

theorem check_row_marks_first_match_witness:
  "ctx_inv (m_mcdc_context harness_state) \<and> unat (0::u32) < length (registry harness_state) \<and>
   harness_t0 = registry harness_state ! unat (0::u32) \<and> dims_fit harness_t0 \<and>
   unat (cols harness_t0) \<le> length [True, True, True] \<and> (3::nat) < unat (rows harness_t0) \<and>
   expected_row harness_t0 3 = take (unat (cols harness_t0)) [True, True, True] \<and>
   expected_row harness_t0 0 \<noteq> take (unat (cols harness_t0)) [True, True, True] \<and>
   expected_row harness_t0 1 \<noteq> take (unat (cols harness_t0)) [True, True, True] \<and>
   expected_row harness_t0 2 \<noteq> take (unat (cols harness_t0)) [True, True, True] \<and>
   mcdc_check_row 0 [True, True, True] harness_state =
     Inr (set_registry harness_state ((registry harness_state)[unat (0::u32) :=
            harness_t0\<lparr>checks := (checks harness_t0)[3 := True]\<rparr>]))"
proof -
  have h: "ctx_inv (m_mcdc_context harness_state)" "unat (0::u32) < length (registry harness_state)"
    "harness_t0 = registry harness_state ! unat (0::u32)" "dims_fit harness_t0"
    "unat (cols harness_t0) \<le> length [True, True, True]" "(3::nat) < unat (rows harness_t0)"
    "expected_row harness_t0 3 = take (unat (cols harness_t0)) [True, True, True]"
    by (simp_all add: harness_simps)
  have h8: "\<forall>j < 3. expected_row harness_t0 j \<noteq> take (unat (cols harness_t0)) [True, True, True]"
    by (simp add: harness_simps all_less_numeral_iff)
  show ?thesis using check_row_marks_first_match [OF h h8] h h8 by (simp add: all_less_numeral_iff)
qed

theorem check_row_no_match_unchanged_witness:
  "ctx_inv (m_mcdc_context harness_state) \<and> unat (0::u32) < length (registry harness_state) \<and>
   harness_t0 = registry harness_state ! unat (0::u32) \<and> dims_fit harness_t0 \<and>
   unat (cols harness_t0) \<le> length [False, False, False] \<and>
   expected_row harness_t0 0 \<noteq> take (unat (cols harness_t0)) [False, False, False] \<and>
   expected_row harness_t0 1 \<noteq> take (unat (cols harness_t0)) [False, False, False] \<and>
   expected_row harness_t0 2 \<noteq> take (unat (cols harness_t0)) [False, False, False] \<and>
   expected_row harness_t0 3 \<noteq> take (unat (cols harness_t0)) [False, False, False] \<and>
   mcdc_check_row 0 [False, False, False] harness_state = Inr harness_state"
proof -
  have h: "ctx_inv (m_mcdc_context harness_state)" "unat (0::u32) < length (registry harness_state)"
    "harness_t0 = registry harness_state ! unat (0::u32)" "dims_fit harness_t0"
    "unat (cols harness_t0) \<le> length [False, False, False]"
    by (simp_all add: harness_simps)
  have h6: "\<forall>i < unat (rows harness_t0).
      expected_row harness_t0 i \<noteq> take (unat (cols harness_t0)) [False, False, False]"
    by (simp add: harness_simps all_less_numeral_iff)
  have r4: "unat (rows harness_t0) = 4" by (simp add: harness_t0_def)
  show ?thesis using check_row_no_match_unchanged [OF h h6] h h6 r4 by (simp add: all_less_numeral_iff)
qed

theorem check_loop_refines_mark_first_witness:
  "table_wf harness_t0 \<and> dims_fit harness_t0 \<and> unat (cols harness_t0) \<le> length [True, True, True] \<and>
   mcdc_check_loop harness_t0 [True, True, True] 0 =
     Inr (mark_first (expected_rows harness_t0) (take (unat (cols harness_t0)) [True, True, True])
            (checks harness_t0))"
proof -
  have h: "table_wf harness_t0" "dims_fit harness_t0"
    "unat (cols harness_t0) \<le> length [True, True, True]"
    by (simp_all add: harness_simps)
  show ?thesis using check_loop_refines_mark_first [OF h] h by simp
qed

theorem register_row_fills_cursor_row_witness:
  "ctx_inv (m_mcdc_context (harness_state\<lparr>m_nrows := 1\<rparr>)) \<and>
   registry (harness_state\<lparr>m_nrows := 1\<rparr>) \<noteq> [] \<and>
   harness_t1 = last (registry (harness_state\<lparr>m_nrows := 1\<rparr>)) \<and> dims_fit harness_t1 \<and>
   m_nrows (harness_state\<lparr>m_nrows := 1\<rparr>) < rows harness_t1 \<and>
   unat (cols harness_t1) \<le> length [True] \<and>
   (\<exists>st'. mcdc_register_row [True] (harness_state\<lparr>m_nrows := 1\<rparr>) = Inr st' \<and>
      m_nrows st' = m_nrows (harness_state\<lparr>m_nrows := 1\<rparr>) + 1 \<and>
      butlast (registry st') = butlast (registry (harness_state\<lparr>m_nrows := 1\<rparr>)) \<and>
      registry st' \<noteq> [] \<and> checks (last (registry st')) = checks harness_t1 \<and>
      (\<forall>j < unat (rows harness_t1). expected_row (last (registry st')) j =
         (if j = unat (m_nrows (harness_state\<lparr>m_nrows := 1\<rparr>))
          then take (unat (cols harness_t1)) [True] else expected_row harness_t1 j)))"
proof -
  let ?st = "harness_state\<lparr>m_nrows := 1\<rparr>"
  have h: "ctx_inv (m_mcdc_context ?st)" "registry ?st \<noteq> []" "harness_t1 = last (registry ?st)"
    "dims_fit harness_t1" "m_nrows ?st < rows harness_t1" "unat (cols harness_t1) \<le> length [True]"
    by (simp_all add: harness_simps)
  show ?thesis using h register_row_fills_cursor_row [OF h] by blast
qed

theorem register_row_isolates_other_tables_witness:
  "ctx_inv (m_mcdc_context (harness_state\<lparr>m_nrows := 1\<rparr>)) \<and>
   mcdc_register_row [True] (harness_state\<lparr>m_nrows := 1\<rparr>) = Inr harness_state \<and>
   (0::nat) < length (registry (harness_state\<lparr>m_nrows := 1\<rparr>)) - 1 \<and>
   registry harness_state ! 0 = registry (harness_state\<lparr>m_nrows := 1\<rparr>) ! 0 \<and>
   length (registry harness_state) = length (registry (harness_state\<lparr>m_nrows := 1\<rparr>))"
proof -
  let ?st = "harness_state\<lparr>m_nrows := 1\<rparr>"
  have h: "ctx_inv (m_mcdc_context ?st)" by (simp add: harness_simps)
  have r: "mcdc_register_row [True] ?st = Inr harness_state" by code_simp
  have k: "(0::nat) < length (registry ?st) - 1" by (simp add: harness_simps)
  show ?thesis using register_row_isolates_other_tables [OF h r k] h r k by simp
qed

theorem register_row_overrun_is_ub_witness:
  "ctx_inv (m_mcdc_context harness_state) \<and> registry harness_state \<noteq> [] \<and>
   dims_fit (last (registry harness_state)) \<and> rows (last (registry harness_state)) \<le> m_nrows harness_state \<and>
   unat (m_nrows harness_state) * unat (cols (last (registry harness_state))) < 2 ^ 32 \<and>
   0 < cols (last (registry harness_state)) \<and>
   unat (cols (last (registry harness_state))) \<le> length [True] \<and>
   mcdc_register_row [True] harness_state = Inl Write_oob"
proof -
  have h: "ctx_inv (m_mcdc_context harness_state)" "registry harness_state \<noteq> []"
    "dims_fit (last (registry harness_state))" "rows (last (registry harness_state)) \<le> m_nrows harness_state"
    "unat (m_nrows harness_state) * unat (cols (last (registry harness_state))) < 2 ^ 32"
    "0 < cols (last (registry harness_state))"
    "unat (cols (last (registry harness_state))) \<le> length [True]"
    by (simp_all add: harness_simps)
  show ?thesis using register_row_overrun_is_ub [OF h] h by simp
qed

theorem check_row_bad_index_is_ub_witness:
  "ctx_inv (m_mcdc_context harness_state) \<and> length (registry harness_state) \<le> unat (2::u32) \<and>
   mcdc_check_row 2 [True] harness_state = Inl Read_oob"
proof -
  have h: "ctx_inv (m_mcdc_context harness_state)" "length (registry harness_state) \<le> unat (2::u32)"
    by (simp_all add: harness_simps)
  have "registry harness_state \<noteq> []" by (simp add: harness_simps)
  then show ?thesis using check_row_bad_index_is_ub [OF h] h by simp
qed

theorem reachable_states_well_formed_witness:
  "mcdc_reachable harness_state \<and>
   unat (ctx_len (m_mcdc_context harness_state)) = length (registry harness_state) \<and>
   (ctx_list (m_mcdc_context harness_state) = None \<longleftrightarrow> registry harness_state = []) \<and>
   registry harness_state = [harness_t0, harness_t1] \<and>
   length (table harness_t0) = unat (rows harness_t0 * cols harness_t0) \<and>
   length (checks harness_t0) = unat (rows harness_t0) \<and>
   length (table harness_t1) = unat (rows harness_t1 * cols harness_t1) \<and>
   length (checks harness_t1) = unat (rows harness_t1) \<and>
   live_blocks harness_state \<le> heap_blocks harness_state"
proof -
  have r: "registry harness_state = [harness_t0, harness_t1]" by (simp add: harness_state_def registry_def)
  show ?thesis using reachable_states_well_formed [OF harness_reachable] harness_reachable r by simp
qed

theorem observed_flags_never_cleared_witness:
  "mcdc_reachable harness_state \<and>
   mcdc_call_step (Check_row 0 [True, True, True]) harness_state =
     Inr (set_registry harness_state [harness_t0\<lparr>checks := [False, False, False, True]\<rparr>, harness_t1]) \<and>
   flags_grow harness_state
     (set_registry harness_state [harness_t0\<lparr>checks := [False, False, False, True]\<rparr>, harness_t1])"
proof -
  have s: "mcdc_call_step (Check_row 0 [True, True, True]) harness_state =
     Inr (set_registry harness_state [harness_t0\<lparr>checks := [False, False, False, True]\<rparr>, harness_t1])"
    by code_simp
  show ?thesis using observed_flags_never_cleared [OF harness_reachable s] harness_reachable s by simp
qed

theorem alloc_table_appends_fresh_table_witness:
  "checks_ok all_ok \<and> table_ok all_ok \<and> list_ok all_ok \<and> ctx_inv (m_mcdc_context mcdc_init) \<and>
   ctx_len (m_mcdc_context mcdc_init) \<noteq> - 1 \<and>
   (\<exists>st'. mcdc_alloc_table all_ok 2 1 ''i == n'' mcdc_init = Inr st' \<and>
      registry st' = [new_table 2 1 ''i == n''] \<and> m_nrows st' = 0 \<and>
      ctx_len (m_mcdc_context st') = 1 \<and> ctx_inv (m_mcdc_context st'))"
proof -
  have h: "checks_ok all_ok" "table_ok all_ok" "list_ok all_ok" "ctx_inv (m_mcdc_context mcdc_init)"
    "ctx_len (m_mcdc_context mcdc_init) \<noteq> - 1"
    by (simp_all add: all_ok_def mcdc_init_def ctx_inv_def)
  have r: "registry mcdc_init = []" by (simp add: mcdc_init_def registry_def)
  show ?thesis using alloc_table_appends_fresh_table [OF h, of 2 1 "''i == n''"] h r
    by (simp add: mcdc_init_def)
qed

theorem alloc_failure_keeps_tables_resets_cursor_witness:
  "\<not> checks_ok (all_ok\<lparr>checks_ok := False\<rparr>) \<and>
   (\<exists>st'. mcdc_alloc_table (all_ok\<lparr>checks_ok := False\<rparr>) 3 1 ''other'' harness_state = Inr st' \<and>
      m_mcdc_context st' = m_mcdc_context harness_state \<and> faults st' = faults harness_state \<and>
      m_nrows st' = 0 \<and> stderr_log st' = [''[ERROR] MC/DC checks allocation''] \<and>
      heap_blocks st' = Suc (heap_blocks harness_state) \<and> live_blocks st' = live_blocks harness_state)"
proof -
  have h: "\<not> checks_ok (all_ok\<lparr>checks_ok := False\<rparr>) \<or> \<not> table_ok (all_ok\<lparr>checks_ok := False\<rparr>)"
    by simp
  show ?thesis using alloc_failure_keeps_tables_resets_cursor [OF h, of 3 1 "''other''" harness_state]
    by (simp add: alloc_errors_def all_ok_def harness_state_def)
qed

theorem alloc_list_failure_is_ub_witness:
  "checks_ok (all_ok\<lparr>list_ok := False\<rparr>) \<and> table_ok (all_ok\<lparr>list_ok := False\<rparr>) \<and>
   \<not> list_ok (all_ok\<lparr>list_ok := False\<rparr>) \<and>
   mcdc_alloc_table (all_ok\<lparr>list_ok := False\<rparr>) 2 1 ''i == n'' mcdc_init = Inl Null_deref"
proof -
  have h: "checks_ok (all_ok\<lparr>list_ok := False\<rparr>)" "table_ok (all_ok\<lparr>list_ok := False\<rparr>)"
    "\<not> list_ok (all_ok\<lparr>list_ok := False\<rparr>)"
    by (simp_all add: all_ok_def)
  show ?thesis using alloc_list_failure_is_ub [OF h] h by simp
qed

theorem alloc_after_first_writes_past_list_witness:
  "checks_ok all_ok \<and> table_ok all_ok \<and> list_ok all_ok \<and> ctx_inv (m_mcdc_context harness_state) \<and>
   ctx_len (m_mcdc_context harness_state) \<noteq> - 1 \<and> registry harness_state \<noteq> [] \<and>
   (\<exists>st'. mcdc_alloc_table all_ok 3 1 ''other'' harness_state = Inr st' \<and>
      faults st' = [Write_oob, Write_oob])"
proof -
  have h: "checks_ok all_ok" "table_ok all_ok" "list_ok all_ok" "ctx_inv (m_mcdc_context harness_state)"
    "ctx_len (m_mcdc_context harness_state) \<noteq> - 1" "registry harness_state \<noteq> []"
    by (simp_all add: all_ok_def harness_simps)
  have f: "faults harness_state = [Write_oob]" by (simp add: harness_state_def)
  show ?thesis using alloc_after_first_writes_past_list [OF h, of 3 1 "''other''"] h f by simp
qed

theorem checks_passed_counts_observed_rows_witness:
  "table_wf (harness_t0\<lparr>checks := [True, False, False, True]\<rparr>) \<and>
   count_checks (harness_t0\<lparr>checks := [True, False, False, True]\<rparr>) 0 0 = Inr 2 \<and>
   \<not> [True, False, False, True] ! 1 \<and>
   of_nat (count_list [True, False, False, True] True) \<noteq> rows harness_t0"
proof -
  have h: "table_wf (harness_t0\<lparr>checks := [True, False, False, True]\<rparr>)"
    by (simp add: harness_simps)
  have n: "\<not> (\<forall>i < unat (rows harness_t0). [True, False, False, True] ! i)"
    by (simp add: harness_t0_def all_less_numeral_iff)
  show ?thesis using checks_passed_counts_observed_rows [OF h] h n by (simp add: harness_t0_def)
qed

theorem spt_strncmp_correct_witness:
  "strncmp_ready harness_state \<and> CHR 0x00 \<in> set (''ab'' @ [CHR 0x00]) \<and>
   CHR 0x00 \<in> set (''ac'' @ [CHR 0x00]) \<and>
   (\<exists>st'. spt_strncmp (Some (''ab'' @ [CHR 0x00])) (Some (''ac'' @ [CHR 0x00])) 5 harness_state =
          Inr (strncmp_spec (''ab'' @ [CHR 0x00]) (''ac'' @ [CHR 0x00]) (unat (5::u32)), st') \<and>
          strncmp_ready st')"
proof -
  have r: "strncmp_ready harness_state"
    by (simp add: strncmp_ready_def harness_simps table_wf_def dims_fit_def)
  show ?thesis
    using spt_strncmp_correct [OF r, of "''ab'' @ [CHR 0x00]" "''ac'' @ [CHR 0x00]" 5] r by simp
qed

theorem spt_strncmp_null_is_ub_witness:
  "(c_lit ''a'' = None \<or> (None::c_str) = None) \<and> c_lit ''a'' \<noteq> Some [] \<and>
   spt_strncmp (c_lit ''a'') None 3 harness_state = Inl Null_deref"
  using spt_strncmp_null_is_ub [of "c_lit ''a''" None 3 harness_state] by (simp add: c_lit_def)

theorem session_implements_contract_witness:
  "ctx_inv (m_mcdc_context harness_state) \<and> ctx_len (m_mcdc_context harness_state) = 2 \<and>
   (2::u32) \<noteq> - 1 \<and> unat (2::u32) * unat (2::u32) < 2 ^ 32 \<and>
   length [[True, False], [False, True]] = unat (2::u32) \<and>
   list_all (\<lambda>v. length v = unat (2::u32)) [[True, False], [False, True]] \<and>
   list_all (\<lambda>w. unat (2::u32) \<le> length w) [[False, True], [True, True], [False, True, True]] \<and>
   (\<exists>st' t'. mcdc_run (Alloc_table all_ok 2 2 ''a && b'' # map Register_row [[True, False], [False, True]] @
                        map (Check_row 2) [[False, True], [True, True], [False, True, True]])
                harness_state = Inr st' \<and>
      registry st' = [harness_t0, harness_t1, t'] \<and> name t' = ''a && b'' \<and> rows t' = 2 \<and>
      cols t' = 2 \<and> expected_rows t' = [[True, False], [False, True]] \<and> checks t' = [False, True])"
proof -
  have h: "ctx_inv (m_mcdc_context harness_state)" "ctx_len (m_mcdc_context harness_state) = 2"
    "registry harness_state = [harness_t0, harness_t1]"
    by (simp_all add: harness_state_def ctx_inv_def registry_def harness_t0_def harness_t1_def
        table_wf_def)
  show ?thesis
    using session_implements_contract [OF h(1,2), of 2 2 "[[True, False], [False, True]]"
            "[[False, True], [True, True], [False, True, True]]" "''a && b''"] h
    by (simp add: session_flags_def)
qed

theorem session_pass_iff_all_rows_matched_witness:
  "ctx_inv (m_mcdc_context harness_state) \<and> ctx_len (m_mcdc_context harness_state) = 2 \<and>
   (2::u32) \<noteq> - 1 \<and> unat (2::u32) * unat (2::u32) < 2 ^ 32 \<and>
   length [[True, False], [False, True]] = unat (2::u32) \<and>
   list_all (\<lambda>v. length v = unat (2::u32)) [[True, False], [False, True]] \<and>
   list_all (\<lambda>w. unat (2::u32) \<le> length w) [[False, True], [True, False]] \<and>
   (\<exists>st' t'. mcdc_run (Alloc_table all_ok 2 2 ''a && b'' # map Register_row [[True, False], [False, True]] @
                        map (Check_row 2) [[False, True], [True, False]])
                harness_state = Inr st' \<and>
      registry st' = [harness_t0, harness_t1, t'] \<and> count_checks t' 0 0 = Inr 2)"
proof -
  have h: "ctx_inv (m_mcdc_context harness_state)" "ctx_len (m_mcdc_context harness_state) = 2"
    "registry harness_state = [harness_t0, harness_t1]"
    by (simp_all add: harness_state_def ctx_inv_def registry_def harness_t0_def harness_t1_def
        table_wf_def)
  show ?thesis
    using session_pass_iff_all_rows_matched [OF h(1,2), of 2 2 "[[True, False], [False, True]]"
            "[[False, True], [True, False]]" "''a && b''"] h
    by (simp add: All_less_Suc)
qed

theorem report_renders_row_view_witness:
  "ctx_inv (m_mcdc_context harness_state) \<and> list_all dims_fit (registry harness_state) \<and>
   mcdc_check_mcdc harness_state = Inr (concat (map table_report [harness_t0, harness_t1]))"
proof -
  have h: "ctx_inv (m_mcdc_context harness_state)" "list_all dims_fit (registry harness_state)"
    "registry harness_state = [harness_t0, harness_t1]"
    by (simp_all add: harness_simps)
  show ?thesis using report_renders_row_view [OF h(1,2)] h by simp
qed

theorem spt_strncmp_reports_trace_witness:
  "strncmp_ready harness_state \<and> CHR 0x00 \<in> set (''ab'' @ [CHR 0x00]) \<and>
   CHR 0x00 \<in> set (''ac'' @ [CHR 0x00]) \<and>
   (\<exists>r. spt_strncmp (Some (''ab'' @ [CHR 0x00])) (Some (''ac'' @ [CHR 0x00])) 5 harness_state =
         Inr (r, set_registry harness_state
                   [check_tables harness_t0 [[True, True, True], [True, True, False]],
                    check_tables harness_t1 [[False]]]))"
proof -
  have r: "strncmp_ready harness_state"
    by (simp add: strncmp_ready_def harness_simps table_wf_def dims_fit_def)
  have g: "registry harness_state = [harness_t0, harness_t1]" by (simp add: harness_simps)
  have "stop_index (''ab'' @ [CHR 0x00]) (''ac'' @ [CHR 0x00]) 5 = 1"
    by (simp add: numeral_eq_Suc)
  moreover have "unat (5::u32) = 5" by simp
  ultimately have si: "stop_index (''ab'' @ [CHR 0x00]) (''ac'' @ [CHR 0x00]) (unat (5::u32)) = 1"
    by simp
  show ?thesis
    using spt_strncmp_reports_trace [OF r, of "''ab'' @ [CHR 0x00]" "''ac'' @ [CHR 0x00]" 5] r g si
    by (simp add: strncmp_obs_def)
qed

theorem c_refines_spec_witness:
  "ctx_inv (m_mcdc_context mcdc_init) \<and> list_all dims_fit (registry mcdc_init) \<and>
   list_all call_fits [Alloc_table all_ok 2 1 ''i == n'', Register_row [False], Register_row [True],
                       Check_row 0 [True]] \<and>
   length (registry mcdc_init) + 4 < 2 ^ 32 \<and>
   spec_run [Alloc_table all_ok 2 1 ''i == n'', Register_row [False], Register_row [True],
             Check_row 0 [True]] (abs_state mcdc_init) =
     Inr \<lparr>s_tables = [\<lparr>s_name = ''i == n'', s_rows = 2, s_cols = 1,
                         s_expected = [[False], [True]], s_observed = [False, True]\<rparr>],
          s_cursor = 2\<rparr> \<and>
   (\<exists>st'. mcdc_run [Alloc_table all_ok 2 1 ''i == n'', Register_row [False], Register_row [True],
                     Check_row 0 [True]] mcdc_init = Inr st' \<and>
          abs_state st' = \<lparr>s_tables = [\<lparr>s_name = ''i == n'', s_rows = 2, s_cols = 1,
                              s_expected = [[False], [True]], s_observed = [False, True]\<rparr>],
                           s_cursor = 2\<rparr>)"
proof -
  let ?cs = "[Alloc_table all_ok 2 1 ''i == n'', Register_row [False], Register_row [True],
              Check_row 0 [True]]"
  let ?S = "\<lparr>s_tables = [\<lparr>s_name = ''i == n'', s_rows = 2, s_cols = 1,
                           s_expected = [[False], [True]], s_observed = [False, True]\<rparr>],
            s_cursor = 2\<rparr>"
  have h: "ctx_inv (m_mcdc_context mcdc_init)" "list_all dims_fit (registry mcdc_init)"
    "list_all call_fits ?cs" "length (registry mcdc_init) + length ?cs < 2 ^ 32"
    using mcdc_init_inv by (simp_all add: mcdc_init_def registry_def)
  have s: "spec_run ?cs (abs_state mcdc_init) = Inr ?S" by code_simp
  have "\<exists>st'. mcdc_run ?cs mcdc_init = Inr st' \<and> abs_state st' = ?S"
    using c_refines_spec [OF h s] by blast
  with h s show ?thesis by simp
qed

theorem report_reads_back_witness:
  "ctx_inv (m_mcdc_context harness_state) \<and> list_all dims_fit (registry harness_state) \<and>
   list_all (\<lambda>t. CHR 0x0A \<notin> set (name t)) (registry harness_state) \<and>
   (\<exists>out. mcdc_check_mcdc harness_state = Inr out \<and>
          parse_report out = Some (map table_view [harness_t0, harness_t1]))"
proof -
  have h: "ctx_inv (m_mcdc_context harness_state)" "list_all dims_fit (registry harness_state)"
    "list_all (\<lambda>t. CHR 0x0A \<notin> set (name t)) (registry harness_state)"
    "registry harness_state = [harness_t0, harness_t1]"
    by (simp_all add: harness_simps decision_name_def)
  show ?thesis using report_reads_back [OF h(1-3)] h by simp
qed

theorem strncmp_loop_stops_witness:
  "strncmp_ready harness_state \<and> CHR 0x00 \<in> set (''ab'' @ [CHR 0x00]) \<and>
   CHR 0x00 \<in> set (''ac'' @ [CHR 0x00]) \<and>
   (\<exists>j st'. strncmp_loop (Some (''ab'' @ [CHR 0x00])) (Some (''ac'' @ [CHR 0x00])) 5 0 harness_state =
             Inr (j, st') \<and> unat j = 1 \<and> unat j \<le> 5 \<and> unat j \<le> 2)"
proof -
  have r: "strncmp_ready harness_state"
    by (simp add: strncmp_ready_def harness_simps table_wf_def dims_fit_def)
  have "stop_index (''ab'' @ [CHR 0x00]) (''ac'' @ [CHR 0x00]) 5 = 1"
    by (simp add: numeral_eq_Suc)
  moreover have "unat (5::u32) = 5" by simp
  ultimately have si: "stop_index (''ab'' @ [CHR 0x00]) (''ac'' @ [CHR 0x00]) (unat (5::u32)) = 1"
    by simp
  show ?thesis
    using strncmp_loop_stops [OF r, of "''ab'' @ [CHR 0x00]" "''ac'' @ [CHR 0x00]" 5] r si by auto
qed

theorem distinct_rows_coverage_reachable_witness:
  "ctx_inv (m_mcdc_context harness_state) \<and> unat (0::u32) < length (registry harness_state) \<and>
   dims_fit (registry harness_state ! unat (0::u32)) \<and>
   distinct (expected_rows (registry harness_state ! unat (0::u32))) \<and>
   (\<exists>st'. mcdc_run (map (Check_row 0) [[False, True, True], [True, False, True], [True, True, False],
                                         [True, True, True]]) harness_state = Inr st' \<and>
          checks (registry st' ! 0) = [True, True, True, True] \<and>
          count_checks (registry st' ! 0) 0 0 = Inr 4)"
proof -
  have h: "ctx_inv (m_mcdc_context harness_state)" "unat (0::u32) < length (registry harness_state)"
    "dims_fit (registry harness_state ! unat (0::u32))"
    "distinct (expected_rows (registry harness_state ! unat (0::u32)))"
    "expected_rows (registry harness_state ! unat (0::u32)) =
       [[False, True, True], [True, False, True], [True, True, False], [True, True, True]]"
    "rows (registry harness_state ! unat (0::u32)) = 4"
    by (simp_all add: harness_simps expected_rows_def upt_rec)
  have "replicate 4 True = [True, True, True, True]" by (simp add: numeral_eq_Suc)
  moreover have "unat (4::u32) = 4" by simp
  ultimately have "replicate (unat (4::u32)) True = [True, True, True, True]" by simp
  then show ?thesis using distinct_rows_coverage_reachable [OF h(1-4)] h by simp
qed

theorem duplicate_row_never_checked_witness:
  "ctx_inv (m_mcdc_context dup_state) \<and> unat (0::u32) < length (registry dup_state) \<and>
   dims_fit (registry dup_state ! unat (0::u32)) \<and>
   list_all (\<lambda>w. unat (cols (registry dup_state ! unat (0::u32))) \<le> length w) [[True], [True]] \<and>
   (0::nat) < 2 \<and> (2::nat) < unat (rows (registry dup_state ! unat (0::u32))) \<and>
   expected_row (registry dup_state ! unat (0::u32)) 0 = expected_row (registry dup_state ! unat (0::u32)) 2 \<and>
   (\<exists>st'. mcdc_run (map (Check_row 0) [[True], [True]]) dup_state = Inr st' \<and>
          checks (registry st' ! unat (0::u32)) ! 2 = False)"
proof -
  have h: "ctx_inv (m_mcdc_context dup_state)" "unat (0::u32) < length (registry dup_state)"
    "dims_fit (registry dup_state ! unat (0::u32))"
    "list_all (\<lambda>w. unat (cols (registry dup_state ! unat (0::u32))) \<le> length w) [[True], [True]]"
    "(0::nat) < 2" "(2::nat) < unat (rows (registry dup_state ! unat (0::u32)))"
    "expected_row (registry dup_state ! unat (0::u32)) 0 = expected_row (registry dup_state ! unat (0::u32)) 2"
    "checks (registry dup_state ! unat (0::u32)) ! 2 = False"
    by (simp_all add: dup_state_def dup_table_def mcdc_init_def ctx_inv_def registry_def table_wf_def
        dims_fit_def expected_row_def buf_slice_def)
  show ?thesis using duplicate_row_never_checked [OF h(1-7)] h by simp
qed

theorem check_row_defined_iff_witness:
  "ctx_inv (m_mcdc_context dup_state) \<and> list_all dims_fit (registry dup_state) \<and>
   (\<exists>st'. mcdc_check_row 0 [True] dup_state = Inr st') \<and>
   \<not> (\<exists>st'. mcdc_check_row 0 [] dup_state = Inr st') \<and>
   \<not> (\<exists>st'. mcdc_check_row 1 [True] dup_state = Inr st')"
proof -
  have h: "ctx_inv (m_mcdc_context dup_state)" "list_all dims_fit (registry dup_state)"
    by (simp_all add: dup_state_def dup_table_def mcdc_init_def ctx_inv_def registry_def table_wf_def
        dims_fit_def)
  have r: "registry dup_state = [dup_table]" by (simp add: dup_state_def registry_def)
  show ?thesis
    using check_row_defined_iff [OF h, of 0 "[True]"] check_row_defined_iff [OF h, of 0 "[]"]
      check_row_defined_iff [OF h, of 1 "[True]"] h r
    by (simp add: dup_table_def)
qed

theorem reachable_cursor_within_last_table_witness:
  "mcdc_reachable harness_state \<and> registry harness_state \<noteq> [] \<and>
   cols (last (registry harness_state)) \<noteq> 0 \<and>
   m_nrows harness_state \<le> rows (last (registry harness_state))"
proof -
  have h: "registry harness_state \<noteq> []" "cols (last (registry harness_state)) \<noteq> 0"
    by (simp_all add: harness_simps)
  show ?thesis using reachable_cursor_within_last_table [OF harness_reachable h] harness_reachable h
    by simp
qed

theorem register_row_defined_iff_witness:
  "mcdc_reachable harness_state \<and> list_all dims_fit (registry harness_state) \<and>
   \<not> (\<exists>st'. mcdc_register_row [True] harness_state = Inr st')"
proof -
  have h: "list_all dims_fit (registry harness_state)" by (simp add: harness_simps)
  have "\<not> (registry harness_state \<noteq> [] \<and>
     (cols (last (registry harness_state)) = 0 \<or>
      unat (cols (last (registry harness_state))) \<le> length [True] \<and>
      m_nrows harness_state < rows (last (registry harness_state))))"
    by (simp add: harness_simps)
  then show ?thesis using register_row_defined_iff [OF harness_reachable h, of "[True]"] harness_reachable h
    by blast
qed

theorem alloc_table_keeps_errno_witness:
  "mcdc_alloc_table \<lparr>checks_ok = False, table_ok = True, list_ok = True\<rparr> 2 1 ''t''
     (mcdc_init\<lparr>errno := 5\<rparr>) = Inr (mcdc_init\<lparr>m_rows := 2, m_cols := 1, errno := 5, heap_blocks := 1,
        stderr_log := [''[ERROR] MC/DC checks allocation'']\<rparr>) \<and>
   errno (mcdc_init\<lparr>m_rows := 2, m_cols := 1, errno := 5, heap_blocks := 1,
        stderr_log := [''[ERROR] MC/DC checks allocation'']\<rparr>) = errno (mcdc_init\<lparr>errno := 5\<rparr>) \<and>
   stderr_log (mcdc_init\<lparr>m_rows := 2, m_cols := 1, errno := 5, heap_blocks := 1,
        stderr_log := [''[ERROR] MC/DC checks allocation'']\<rparr>) =
     stderr_log (mcdc_init\<lparr>errno := 5\<rparr>) @ alloc_errors \<lparr>checks_ok = False, table_ok = True, list_ok = True\<rparr>"
proof -
  have r: "mcdc_alloc_table \<lparr>checks_ok = False, table_ok = True, list_ok = True\<rparr> 2 1 ''t''
     (mcdc_init\<lparr>errno := 5\<rparr>) = Inr (mcdc_init\<lparr>m_rows := 2, m_cols := 1, errno := 5, heap_blocks := 1,
        stderr_log := [''[ERROR] MC/DC checks allocation'']\<rparr>)"
    by (simp add: alloc_step_simps mcdc_init_def)
  show ?thesis using alloc_table_keeps_errno [OF r] r by simp
qed

theorem checks_order_independent_witness:
  "ctx_inv (m_mcdc_context harness_state) \<and> unat (0::u32) < length (registry harness_state) \<and>
   dims_fit (registry harness_state ! unat (0::u32)) \<and>
   set [[True, True, True], [False, True, True]] =
     set [[False, True, True], [True, True, True], [False, True, True]] \<and>
   mcdc_run (map (Check_row 0) [[True, True, True], [False, True, True]]) harness_state =
   mcdc_run (map (Check_row 0) [[False, True, True], [True, True, True], [False, True, True]])
     harness_state"
proof -
  have h: "ctx_inv (m_mcdc_context harness_state)" "unat (0::u32) < length (registry harness_state)"
    "dims_fit (registry harness_state ! unat (0::u32))"
    "list_all (\<lambda>w. unat (cols (registry harness_state ! unat (0::u32))) \<le> length w)
       [[True, True, True], [False, True, True]]"
    "list_all (\<lambda>w. unat (cols (registry harness_state ! unat (0::u32))) \<le> length w)
       [[False, True, True], [True, True, True], [False, True, True]]"
    "set [[True, True, True], [False, True, True]] =
       set [[False, True, True], [True, True, True], [False, True, True]]"
    by (auto simp: harness_simps table_wf_def dims_fit_def)
  show ?thesis using checks_order_independent [OF h] h(1-3,6) by blast
qed

theorem wrapped_table_registration_is_ub_witness:
  "ctx_inv (m_mcdc_context mcdc_init) \<and> ctx_len (m_mcdc_context mcdc_init) \<noteq> - 1 \<and>
   2 ^ 32 \<le> unat (2::u32) * unat (2147483648::u32) \<and>
   (\<exists>st1. mcdc_alloc_table all_ok 2 2147483648 ''wide'' mcdc_init = Inr st1 \<and>
      length (table (last (registry st1))) < unat (2::u32) * unat (2147483648::u32) \<and>
      (\<exists>e. mcdc_run (map Register_row [replicate 2147483648 True, replicate 2147483648 False]) st1 =
             Inl e))"
proof -
  have u: "unat (2::u32) = 2" "unat (2147483648::u32) = 2147483648" by simp_all
  have h: "ctx_inv (m_mcdc_context mcdc_init)" "ctx_len (m_mcdc_context mcdc_init) \<noteq> - 1"
    "2 ^ 32 \<le> unat (2::u32) * unat (2147483648::u32)"
    "length [replicate 2147483648 True, replicate 2147483648 False] = unat (2::u32)"
    "list_all (\<lambda>v. unat (2147483648::u32) \<le> length v)
       [replicate 2147483648 True, replicate 2147483648 False]"
    using mcdc_init_inv u by (simp_all add: mcdc_init_def)
  show ?thesis using wrapped_table_registration_is_ub [OF h, of "''wide''"] h(1-3) by blast
qed

theorem failed_alloc_then_register_overwrites_previous_witness:
  "ctx_inv (m_mcdc_context harness_state) \<and> registry harness_state \<noteq> [] \<and>
   \<not> checks_ok (all_ok\<lparr>checks_ok := False\<rparr>) \<and> dims_fit (last (registry harness_state)) \<and>
   0 < rows (last (registry harness_state)) \<and>
   (\<exists>st'. mcdc_run [Alloc_table (all_ok\<lparr>checks_ok := False\<rparr>) 3 1 ''other'', Register_row [True]]
             harness_state = Inr st' \<and>
          registry st' = [harness_t0, register_table harness_t1 0 [True]])"
proof -
  have h: "ctx_inv (m_mcdc_context harness_state)" "registry harness_state \<noteq> []"
    "\<not> checks_ok (all_ok\<lparr>checks_ok := False\<rparr>) \<or> \<not> table_ok (all_ok\<lparr>checks_ok := False\<rparr>)"
    "dims_fit (last (registry harness_state))" "0 < rows (last (registry harness_state))"
    "unat (cols (last (registry harness_state))) \<le> length [True]"
    by (simp_all add: harness_simps table_wf_def dims_fit_def)
  have r: "registry harness_state = [harness_t0, harness_t1]" by (simp add: harness_state_def registry_def)
  show ?thesis
    using failed_alloc_then_register_overwrites_previous [OF h, of 3 1 "''other''"] h r by simp
qed

theorem signed_char_ordering_witness:
  "strncmp_ready harness_state \<and> CHR 0x00 \<in> set [CHR 0xE9, CHR 0x00] \<and>
   CHR 0x00 \<in> set [CHR 0x61, CHR 0x00] \<and>
   high_split [CHR 0xE9, CHR 0x00] [CHR 0x61, CHR 0x00] (unat (1::u32)) \<and>
   strncmp_iso [CHR 0xE9, CHR 0x00] [CHR 0x61, CHR 0x00] (unat (1::u32)) = 136 \<and>
   (\<exists>r st'. spt_strncmp (Some [CHR 0xE9, CHR 0x00]) (Some [CHR 0x61, CHR 0x00]) 1 harness_state =
             Inr (r, st') \<and> sgn r = - 1)"
proof -
  have r: "strncmp_ready harness_state"
    by (simp add: strncmp_ready_def harness_simps table_wf_def dims_fit_def)
  have u: "unat (1::u32) = Suc 0" by simp
  have e: "high_split [CHR 0xE9, CHR 0x00] [CHR 0x61, CHR 0x00] (unat (1::u32))"
    "strncmp_iso [CHR 0xE9, CHR 0x00] [CHR 0x61, CHR 0x00] (unat (1::u32)) = 136"
    by (simp_all add: u)
  show ?thesis
    using signed_char_ordering [OF r, of "[CHR 0xE9, CHR 0x00]" "[CHR 0x61, CHR 0x00]" 1] r e by simp
qed

theorem unregistered_row_matches_zero_vector_witness:
  "ctx_inv (m_mcdc_context mcdc_init) \<and> ctx_len (m_mcdc_context mcdc_init) = 0 \<and>
   unat (2::u32) * unat (1::u32) < 2 ^ 32 \<and> length [[True]] < unat (2::u32) \<and>
   replicate (unat (1::u32)) False \<notin> set [[True]] \<and>
   (\<exists>st' t'. mcdc_run (Alloc_table all_ok 2 1 ''partial'' # map Register_row [[True]] @
                        [Check_row 0 (replicate (unat (1::u32)) False)]) mcdc_init = Inr st' \<and>
       registry st' = [t'] \<and> checks t' = [False, True])"
proof -
  have u: "unat (2::u32) = 2" "unat (1::u32) = 1" by simp_all
  have h: "ctx_inv (m_mcdc_context mcdc_init)" "ctx_len (m_mcdc_context mcdc_init) = 0"
    "(0::u32) \<noteq> - 1" "unat (2::u32) * unat (1::u32) < 2 ^ 32" "length [[True]] < unat (2::u32)"
    "list_all (\<lambda>v. length v = unat (1::u32)) [[True]]" "replicate (unat (1::u32)) False \<notin> set [[True]]"
    using mcdc_init_inv u by (simp_all add: mcdc_init_def)
  have r0: "registry mcdc_init = []" by (simp add: mcdc_init_def registry_def)
  have l: "(replicate (unat (2::u32)) False)[length [[True]] := True] = [False, True]"
    unfolding u by (simp add: numeral_2_eq_2)
  show ?thesis
    using unregistered_row_matches_zero_vector [OF h, of "''partial''"] h r0 l by auto
qed

subsection \<open>Properties of whole runs\<close>

text \<open>Registration before any allocation (an instance of C7): \<open>mcdc_register_row\<close> reads
  \<open>list[len - 1]\<close> of the context; before the first allocation the list is
  \<open>NULL\<close>, so every run that registers a row first dereferences \<open>NULL\<close>.\<close>

theorem register_before_alloc_is_ub:
  "mcdc_run (Register_row v # cs) mcdc_init = Inl Null_deref"
proof -
  have "registry mcdc_init = []" by (simp add: mcdc_init_def registry_def)
  with mcdc_init_inv show ?thesis by (simp add: mcdc_register_row_no_table)
qed


text \<open>Registration into a table with no columns (which the spec forbids and
  the code does not check) copies nothing and always succeeds, so the cursor
  runs past \<open>rows\<close> without any fault: the hypothesis on \<open>cols\<close> in C34 is
  needed.\<close>

lemma zero_cols_cursor_passes_rows:
  "\<exists>st. mcdc_run [Alloc_table all_ok 1 0 ''z'', Register_row [], Register_row []] mcdc_init = Inr st \<and>
        mcdc_reachable st \<and> cols (last (registry st)) = 0 \<and>
        m_nrows st = 2 \<and> rows (last (registry st)) = 1"
proof -
  have run: "mcdc_run [Alloc_table all_ok 1 0 ''z'', Register_row [], Register_row []] mcdc_init =
    Inr (mcdc_init\<lparr>m_mcdc_context := \<lparr>ctx_list = Some [\<lparr>name = ''z'', table = [], checks = [False],
           rows = 1, cols = 0\<rparr>], ctx_len = 1\<rparr>, m_nrows := 2, m_rows := 1, m_cols := 0,
           heap_blocks := 3\<rparr>)"
    by code_simp
  show ?thesis using mcdc_run_reachable [OF mcdc_reachable.init run] run by (simp add: registry_def)
qed

end
